theory Spec2Isabelle
  imports Main "HOL-Library.Word" "HOL-Library.List_Lexorder" "HOL-Library.Char_ord"
    "HOL-Library.Multiset" "HOL-Library.Product_Lexorder"
begin

unbundle bit_operations_syntax

section \<open>Outcomes and errors\<close>

text \<open>\<^verbatim>\<open>enum class Outcome\<close> of \<^verbatim>\<open>global.hpp\<close>.\<close>

datatype Outcome = Win | Loss | Unknown

text \<open>The exceptions thrown by \<^verbatim>\<open>ProofNumbers::Value\<close>:
  \<^verbatim>\<open>std::overflow_error\<close> and \<^verbatim>\<open>std::underflow_error\<close>.\<close>

datatype error = OverflowError | UnderflowError

section \<open>Nimber (\<^verbatim>\<open>nimber.hpp\<close>)\<close>

type_synonym Nimber = "8 word"

definition Nimber_isLoss :: "Nimber \<Rightarrow> bool" where
  "Nimber_isLoss v = (v = 0)"

definition Nimber_isWin :: "Nimber \<Rightarrow> bool" where
  "Nimber_isWin v = (v \<noteq> 0)"

definition mergeNimbers :: "Nimber \<Rightarrow> Nimber \<Rightarrow> Nimber" where
  "mergeNimbers x y = x XOR y"

section \<open>ProofNumbers (\<^verbatim>\<open>proof_numbers.hpp\<close>)\<close>

text \<open>\<^verbatim>\<open>Value<uint64_t>\<close>: an unsigned 64-bit integer whose largest value
  stands for infinity.\<close>

type_synonym Value = "64 word"

definition Inf :: Value where
  "Inf = - 1"

definition is_inf :: "Value \<Rightarrow> bool" where
  "is_inf v = (v = - 1)"

definition will_addition_overflow :: "Value \<Rightarrow> Value \<Rightarrow> bool" where
  "will_addition_overflow a b = (a \<ge> - 1 - b)"

definition Value_add :: "Value \<Rightarrow> Value \<Rightarrow> error + Value" where
  "Value_add a b =
     (if is_inf a \<or> is_inf b then Inr Inf
      else if will_addition_overflow a b then Inl OverflowError
      else Inr (a + b))"

definition Value_sub :: "Value \<Rightarrow> Value \<Rightarrow> error + Value" where
  "Value_sub a b =
     (if is_inf a then (if is_inf b then Inl UnderflowError else Inr Inf)
      else if a < b then Inl UnderflowError
      else Inr (a - b))"

definition Value_eq :: "Value \<Rightarrow> Value \<Rightarrow> bool" where
  "Value_eq a b = ((is_inf a \<and> is_inf b) \<or> a = b)"

definition Value_less :: "Value \<Rightarrow> Value \<Rightarrow> bool" where
  "Value_less a b = (if is_inf a then False else if is_inf b then True else a < b)"

text \<open>\<^verbatim>\<open>std::min\<close> and \<^verbatim>\<open>std::max\<close> instantiated with \<^verbatim>\<open>Value::operator<\<close>.\<close>

definition Value_min :: "Value \<Rightarrow> Value \<Rightarrow> Value" where
  "Value_min a b = (if Value_less b a then b else a)"

definition Value_max :: "Value \<Rightarrow> Value \<Rightarrow> Value" where
  "Value_max a b = (if Value_less a b then b else a)"

record ProofNumbers =
  pn_proof :: Value
  pn_disproof :: Value

definition isWin :: "ProofNumbers \<Rightarrow> bool" where
  "isWin pn = Value_eq (pn_proof pn) 0"

definition isLoss :: "ProofNumbers \<Rightarrow> bool" where
  "isLoss pn = Value_eq (pn_disproof pn) 0"

definition isProved :: "ProofNumbers \<Rightarrow> bool" where
  "isProved pn = (isWin pn \<or> isLoss pn)"

definition toOutcome :: "ProofNumbers \<Rightarrow> Outcome" where
  "toOutcome pn =
     (if Value_eq (pn_proof pn) 0 then Win
      else if Value_eq (pn_disproof pn) 0 then Loss else Unknown)"

section \<open>BucketTable (\<^verbatim>\<open>bucket_table.hpp\<close>)\<close>

text \<open>The template parameters of the table: the hash functor, what the table needs of
  \<^verbatim>\<open>Value\<close> (\<^verbatim>\<open>operator<\<close>, \<^verbatim>\<open>update\<close>, \<^verbatim>\<open>mark\<close>, \<^verbatim>\<open>unmark\<close>) and the
  default-constructed key and value of an empty slot.\<close>

record ('k, 'v) table_params =
  Hash :: "'k \<Rightarrow> nat"
  value_less :: "'v \<Rightarrow> 'v \<Rightarrow> bool"
  value_update :: "'v \<Rightarrow> 'v \<Rightarrow> 'v"
  value_mark :: "'v \<Rightarrow> int \<Rightarrow> 'v"
  value_unmark :: "'v \<Rightarrow> int \<Rightarrow> 'v"
  default_key :: 'k
  default_value :: 'v

record ('k, 'v) TTEntry =
  key :: 'k
  val :: 'v
  occupied :: bool

definition BUCKET_SIZE :: nat where
  "BUCKET_SIZE = 4"

text \<open>A bucket is the array \<^verbatim>\<open>entries[BUCKET_SIZE]\<close>; the table is the vector of
  buckets with the atomic counter \<^verbatim>\<open>_size\<close>.\<close>

type_synonym ('k, 'v) Bucket = "('k, 'v) TTEntry list"

record ('k, 'v) BucketTable =
  data :: "('k, 'v) Bucket list"
  size_ctr :: nat
  threadSafe :: bool

definition empty_entry :: "('k, 'v) table_params \<Rightarrow> ('k, 'v) TTEntry" where
  "empty_entry P = \<lparr>key = default_key P, val = default_value P, occupied = False\<rparr>"

definition new_entry :: "'k \<Rightarrow> 'v \<Rightarrow> ('k, 'v) TTEntry" where
  "new_entry k v = \<lparr>key = k, val = v, occupied = True\<rparr>"

definition BucketTable_new :: "('k, 'v) table_params \<Rightarrow> nat \<Rightarrow> bool \<Rightarrow> ('k, 'v) BucketTable" where
  "BucketTable_new P capacity ts =
     \<lparr>data = replicate (capacity div BUCKET_SIZE) (replicate BUCKET_SIZE (empty_entry P)),
      size_ctr = 0, threadSafe = ts\<rparr>"

definition BucketTable_size :: "('k, 'v) BucketTable \<Rightarrow> nat" where
  "BucketTable_size t = size_ctr t"

text \<open>The scan of \<^verbatim>\<open>insert\<close>: \<open>i\<close> is the loop counter, \<open>r\<close> is \<^verbatim>\<open>replaceIdx\<close>.\<close>

function insert_scan ::
  "('k, 'v) table_params \<Rightarrow> 'k \<Rightarrow> ('k, 'v) Bucket \<Rightarrow> nat \<Rightarrow> nat \<Rightarrow> nat" where
  "insert_scan P k es i r =
     (if i < BUCKET_SIZE then
        (if \<not> occupied (es ! i) \<or> key (es ! i) = k then i
         else insert_scan P k es (i + 1)
                (if i \<noteq> 0 \<and> value_less P (val (es ! i)) (val (es ! r)) then i else r))
      else r)"
  by pat_completeness auto
termination
  by (relation "measure (\<lambda>(P, k, es, i, r). BUCKET_SIZE - i)") auto

declare insert_scan.simps [simp del]

definition BucketTable_insert ::
  "('k, 'v) table_params \<Rightarrow> ('k, 'v) BucketTable \<Rightarrow> 'k \<Rightarrow> 'v \<Rightarrow> 'v option \<times> ('k, 'v) BucketTable" where
  "BucketTable_insert P t k v =
     (if data t = [] then (None, t)
      else
        let b = Hash P k mod length (data t);
            bucket = data t ! b;
            replaceIdx = insert_scan P k bucket 0 0;
            e = bucket ! replaceIdx
        in if \<not> occupied e then
             (None, t\<lparr>data := (data t)[b := bucket[replaceIdx := new_entry k v]],
                      size_ctr := size_ctr t + 1\<rparr>)
           else if key e = k then
             (Some (val e),
              t\<lparr>data := (data t)[b := bucket[replaceIdx := e\<lparr>val := value_update P (val e) v\<rparr>]]\<rparr>)
           else
             (None, t\<lparr>data := (data t)[b := bucket[replaceIdx := new_entry k v]]\<rparr>))"

text \<open>The loops of \<^verbatim>\<open>mark\<close>, \<^verbatim>\<open>unmark\<close> and \<^verbatim>\<open>find\<close> over the slots of one bucket,
  from slot \<open>i\<close> on.\<close>

function mark_scan ::
  "('v \<Rightarrow> int \<Rightarrow> 'v) \<Rightarrow> 'k \<Rightarrow> int \<Rightarrow> ('k, 'v) Bucket \<Rightarrow> nat \<Rightarrow> ('k, 'v) Bucket" where
  "mark_scan f k tid es i =
     (if i < BUCKET_SIZE then
        (if occupied (es ! i) \<and> key (es ! i) = k
         then es[i := (es ! i)\<lparr>val := f (val (es ! i)) tid\<rparr>]
         else mark_scan f k tid es (i + 1))
      else es)"
  by pat_completeness auto
termination
  by (relation "measure (\<lambda>(f, k, tid, es, i). BUCKET_SIZE - i)") auto

declare mark_scan.simps [simp del]

definition BucketTable_mark ::
  "('k, 'v) table_params \<Rightarrow> ('k, 'v) BucketTable \<Rightarrow> 'k \<Rightarrow> int \<Rightarrow> ('k, 'v) BucketTable" where
  "BucketTable_mark P t k tid =
     (if data t = [] then t
      else let b = Hash P k mod length (data t)
           in t\<lparr>data := (data t)[b := mark_scan (value_mark P) k tid (data t ! b) 0]\<rparr>)"

definition BucketTable_unmark ::
  "('k, 'v) table_params \<Rightarrow> ('k, 'v) BucketTable \<Rightarrow> 'k \<Rightarrow> int \<Rightarrow> ('k, 'v) BucketTable" where
  "BucketTable_unmark P t k tid =
     (if data t = [] then t
      else let b = Hash P k mod length (data t)
           in t\<lparr>data := (data t)[b := mark_scan (value_unmark P) k tid (data t ! b) 0]\<rparr>)"

function find_scan :: "'k \<Rightarrow> ('k, 'v) Bucket \<Rightarrow> nat \<Rightarrow> ('k, 'v) TTEntry option" where
  "find_scan k es i =
     (if i < BUCKET_SIZE then
        (if key (es ! i) = k then Some (es ! i) else find_scan k es (i + 1))
      else None)"
  by pat_completeness auto
termination
  by (relation "measure (\<lambda>(k, es, i). BUCKET_SIZE - i)") auto

declare find_scan.simps [simp del]

definition BucketTable_find ::
  "('k, 'v) table_params \<Rightarrow> ('k, 'v) BucketTable \<Rightarrow> 'k \<Rightarrow> ('k, 'v) TTEntry option" where
  "BucketTable_find P t k =
     (if data t = [] then None
      else find_scan k (data t ! (Hash P k mod length (data t))) 0)"

definition BucketTable_clear ::
  "('k, 'v) table_params \<Rightarrow> ('k, 'v) BucketTable \<Rightarrow> ('k, 'v) BucketTable" where
  "BucketTable_clear P t =
     t\<lparr>data := map (\<lambda>b. replicate BUCKET_SIZE (empty_entry P)) (data t), size_ctr := 0\<rparr>"

section \<open>The transposition-table value of df-pn (\<^verbatim>\<open>dfpn.hpp\<close>)\<close>

text \<open>\<^verbatim>\<open>Couple::Compact\<close>: the position's compact string and the nimber.\<close>

record Compact =
  compactPosition :: string
  nimber :: Nimber

record StoredNodeInfo =
  proofNumbers :: ProofNumbers
  iterations :: "64 word"

definition StoredNodeInfo_update :: "StoredNodeInfo \<Rightarrow> StoredNodeInfo \<Rightarrow> StoredNodeInfo" where
  "StoredNodeInfo_update s other =
     (if isProved (proofNumbers s) then s
      else \<lparr>proofNumbers = proofNumbers other,
            iterations = max (iterations s) (iterations other)\<rparr>)"

definition StoredNodeInfo_mark :: "StoredNodeInfo \<Rightarrow> int \<Rightarrow> StoredNodeInfo" where
  "StoredNodeInfo_mark s tid = s"

definition StoredNodeInfo_unmark :: "StoredNodeInfo \<Rightarrow> int \<Rightarrow> StoredNodeInfo" where
  "StoredNodeInfo_unmark s tid = s"

definition StoredNodeInfo_less :: "StoredNodeInfo \<Rightarrow> StoredNodeInfo \<Rightarrow> bool" where
  "StoredNodeInfo_less s other =
     (isProved (proofNumbers s) \<or> iterations s < iterations other)"

text \<open>\<^verbatim>\<open>BucketTable<Couple::Compact, StoredNodeInfo, Couple::Compact::Hash>\<close>, the table
  of \<^verbatim>\<open>PnsDatabase<Game, StoredNodeInfo>\<close>. The hash functor combines
  \<^verbatim>\<open>std::hash\<close> values, which the repository does not define: it is the parameter
  \<open>h\<close>. A default-constructed \<^verbatim>\<open>StoredNodeInfo\<close> has the proof numbers \<open>(1, 1)\<close> and
  no iterations.\<close>

definition dfpn_table :: "(Compact \<Rightarrow> nat) \<Rightarrow> (Compact, StoredNodeInfo) table_params" where
  "dfpn_table h =
     \<lparr>Hash = h, value_less = StoredNodeInfo_less, value_update = StoredNodeInfo_update,
      value_mark = StoredNodeInfo_mark, value_unmark = StoredNodeInfo_unmark,
      default_key = \<lparr>compactPosition = [], nimber = 0\<rparr>,
      default_value = \<lparr>proofNumbers = \<lparr>pn_proof = 1, pn_disproof = 1\<rparr>, iterations = 0\<rparr>\<rparr>"

section \<open>PnsNode (\<^verbatim>\<open>pns_node.hpp\<close>)\<close>

record State =
  compactCouple :: Compact
  lives :: nat
  isMultiLand :: bool

text \<open>\<^verbatim>\<open>PnsNode::Info\<close>. The fields \<^verbatim>\<open>proofNumbers\<close> and \<^verbatim>\<open>iterations\<close> carry the
  prefix \<open>info_\<close> here, since \<^verbatim>\<open>StoredNodeInfo\<close> has fields of the same names.\<close>

record Info =
  info_proofNumbers :: ProofNumbers
  info_iterations :: "64 word"
  locked :: bool
  expanded :: bool
  overestimated :: bool
  mergedNimber :: Nimber

text \<open>A node with its children stored inside, as \<^verbatim>\<open>DfpnSolver::Node\<close> and
  \<^verbatim>\<open>ParallelDfpn::Node\<close> instantiate \<^verbatim>\<open>PnsNode<Game, Child>\<close> with themselves as
  \<^verbatim>\<open>Child\<close>. The member \<^verbatim>\<open>workingThreadsNum\<close> is the one \<^verbatim>\<open>ParallelDfpn::Node\<close>
  adds; no function of \<^verbatim>\<open>PnsNode\<close> reads or writes it, and a \<^verbatim>\<open>DfpnSolver::Node\<close>,
  which has no such member, carries 0.\<close>

datatype Node = Node (workingThreadsNum: nat) (state: State) (info: Info) (children: "Node list")

definition getProofNumbers :: "Node \<Rightarrow> ProofNumbers" where
  "getProofNumbers n = info_proofNumbers (info n)"

definition isMultiLandNode :: "Node \<Rightarrow> bool" where
  "isMultiLandNode n = isMultiLand (state n)"

definition isExpanded :: "Node \<Rightarrow> bool" where
  "isExpanded n = expanded (info n)"

definition PnsNode_isProved :: "Node \<Rightarrow> bool" where
  "PnsNode_isProved n = (isLoss (info_proofNumbers (info n)) \<or> isWin (info_proofNumbers (info n)))"

definition isLocked :: "Node \<Rightarrow> bool" where
  "isLocked n = locked (info n)"

definition getChildComplexity :: "Node \<Rightarrow> nat \<Rightarrow> Value" where
  "getChildComplexity n childIdx =
     (let childProofNumbers = getProofNumbers (children n ! childIdx)
      in if isMultiLandNode n
         then Value_min (pn_proof childProofNumbers) (pn_disproof childProofNumbers)
         else pn_disproof childProofNumbers)"

definition close :: "Node \<Rightarrow> Node" where
  "close n = Node (workingThreadsNum n) (state n) ((info n)\<lparr>expanded := False, mergedNimber := 0\<rparr>) []"

definition setToWin :: "Node \<Rightarrow> Node" where
  "setToWin n =
     (let c = close n
      in Node (workingThreadsNum c) (state c)
           ((info c)\<lparr>locked := False, info_proofNumbers := \<lparr>pn_proof = 0, pn_disproof = Inf\<rparr>\<rparr>)
           (children c))"

definition setToLoss :: "Node \<Rightarrow> Node" where
  "setToLoss n =
     (let c = close n
      in Node (workingThreadsNum c) (state c)
           ((info c)\<lparr>locked := False, info_proofNumbers := \<lparr>pn_proof = Inf, pn_disproof = 0\<rparr>\<rparr>)
           (children c))"


text \<open>\<^verbatim>\<open>updateLock\<close>: the node is locked iff the loop finds no unlocked child.\<close>

fun all_children_locked :: "Node list \<Rightarrow> bool" where
  "all_children_locked [] = True"
| "all_children_locked (c # cs) = (if \<not> isLocked c then False else all_children_locked cs)"

definition updateLock :: "Node \<Rightarrow> Node" where
  "updateLock n = Node (workingThreadsNum n) (state n) ((info n)\<lparr>locked := all_children_locked (children n)\<rparr>) (children n)"

text \<open>The loop of \<^verbatim>\<open>updateSingleLandProofNumbers\<close> over the children, on the pair
  \<^verbatim>\<open>info.proofNumbers\<close>; \<open>ov\<close> is \<^verbatim>\<open>info.overestimated\<close>, \<open>lk\<close> is \<^verbatim>\<open>isLocked()\<close>.
  \<^verbatim>\<open>+=\<close> throws on overflow.\<close>

fun single_land_loop :: "bool \<Rightarrow> bool \<Rightarrow> Node list \<Rightarrow> ProofNumbers \<Rightarrow> error + ProofNumbers" where
  "single_land_loop ov lk [] pn = Inr pn"
| "single_land_loop ov lk (c # cs) pn =
     (case (if \<not> ov then Value_add (pn_disproof pn) (pn_proof (getProofNumbers c))
            else Inr (Value_max (pn_disproof pn) (pn_proof (getProofNumbers c)))) of
        Inl e \<Rightarrow> Inl e
      | Inr d \<Rightarrow>
          single_land_loop ov lk cs
            \<lparr>pn_proof = (if lk then Value_max (pn_proof pn) (pn_disproof (getProofNumbers c))
                         else if \<not> isLocked c
                              then Value_min (pn_proof pn) (pn_disproof (getProofNumbers c))
                              else pn_proof pn),
             pn_disproof = d\<rparr>)"

text \<open>\<^verbatim>\<open>children.size() - 1\<close> is computed in \<^verbatim>\<open>size_t\<close> and wraps for no children.\<close>

definition size_minus_one :: "Node list \<Rightarrow> Value" where
  "size_minus_one cs = of_nat (length cs) - 1"

definition updateSingleLandProofNumbers :: "Node \<Rightarrow> error + Node" where
  "updateSingleLandProofNumbers n =
     (case single_land_loop (overestimated (info n)) (isLocked n) (children n)
             \<lparr>pn_proof = (if \<not> isLocked n then Inf else 0), pn_disproof = 0\<rparr> of
        Inl e \<Rightarrow> Inl e
      | Inr pn \<Rightarrow>
          (if overestimated (info n) then
             (case Value_add (pn_disproof pn) (size_minus_one (children n)) of
                Inl e \<Rightarrow> Inl e
              | Inr d \<Rightarrow> Inr (Node (workingThreadsNum n) (state n) ((info n)\<lparr>info_proofNumbers := pn\<lparr>pn_disproof := d\<rparr>\<rparr>)
                               (children n)))
           else Inr (Node (workingThreadsNum n) (state n) ((info n)\<lparr>info_proofNumbers := pn\<rparr>) (children n))))"

text \<open>The loop of \<^verbatim>\<open>updateMultiLandProofNumbers\<close> on \<^verbatim>\<open>info.proofNumbers.proof\<close>,
  over the complexities \<^verbatim>\<open>getChildComplexity(i)\<close> of the children.\<close>

fun multi_land_loop :: "bool \<Rightarrow> Value list \<Rightarrow> Value \<Rightarrow> error + Value" where
  "multi_land_loop ov [] p = Inr p"
| "multi_land_loop ov (complexity # cs) p =
     (case (if \<not> ov then Value_add p complexity else Inr (Value_max p complexity)) of
        Inl e \<Rightarrow> Inl e
      | Inr p' \<Rightarrow> multi_land_loop ov cs p')"

definition updateMultiLandProofNumbers :: "Node \<Rightarrow> error + Node" where
  "updateMultiLandProofNumbers n =
     (if length (children n) = 1
      then Inr (Node (workingThreadsNum n) (state n) ((info n)\<lparr>info_proofNumbers := getProofNumbers (children n ! 0)\<rparr>)
                 (children n))
      else
        (case multi_land_loop (overestimated (info n))
                (map (getChildComplexity n) [0..<length (children n)]) 0 of
           Inl e \<Rightarrow> Inl e
         | Inr p \<Rightarrow>
             (case (if overestimated (info n) then Value_add p (size_minus_one (children n))
                    else Inr p) of
                Inl e \<Rightarrow> Inl e
              | Inr p' \<Rightarrow>
                  Inr (Node (workingThreadsNum n) (state n)
                         ((info n)\<lparr>info_proofNumbers := \<lparr>pn_proof = p', pn_disproof = p'\<rparr>\<rparr>)
                         (children n)))))"

definition updateInfo :: "Node \<Rightarrow> error + Node" where
  "updateInfo n =
     (if PnsNode_isProved n \<or> \<not> isExpanded n then Inr n
      else let n' = updateLock n
           in if isMultiLandNode n' then updateMultiLandProofNumbers n'
              else updateSingleLandProofNumbers n')"

text \<open>The loop of \<^verbatim>\<open>updateSingleLandChildren\<close>: \<open>None\<close> when a child is a proved
  loss (the node is then set to a win), otherwise the children left after erasing the
  proved wins.\<close>

fun single_land_children_loop :: "Node list \<Rightarrow> Node list option" where
  "single_land_children_loop [] = Some []"
| "single_land_children_loop (c # cs) =
     (if isLoss (getProofNumbers c) then None
      else if isWin (getProofNumbers c) then single_land_children_loop cs
      else map_option ((#) c) (single_land_children_loop cs))"

definition updateSingleLandChildren :: "Node \<Rightarrow> Node" where
  "updateSingleLandChildren n =
     (case single_land_children_loop (children n) of
        None \<Rightarrow> setToWin n
      | Some cs \<Rightarrow>
          (if cs = [] then setToLoss (Node (workingThreadsNum n) (state n) (info n) cs)
           else Node (workingThreadsNum n) (state n) (info n) cs))"

section \<open>The game (\<^verbatim>\<open>games/sprouts/position.hpp\<close>)\<close>

text \<open>A \<^verbatim>\<open>Position\<close> is a \<^verbatim>\<open>Structure<Position, Land>\<close>: the vector of its lands. The
  solver core is a template over the game and uses the lands only through the
  operations below, so the type of lands is a parameter and the operations of the game
  layer that the core calls are the fields of a record.\<close>

record 'l Game =
  isNormalImpartial :: bool
  to_string :: "'l list \<Rightarrow> string"
  from_string :: "string \<Rightarrow> 'l list"
  getLives :: "'l list \<Rightarrow> nat"
  estimateChildrenNumber :: "'l list \<Rightarrow> nat"
  Position_computeChildren :: "'l list \<Rightarrow> 'l list list"

definition isTerminal :: "'l list \<Rightarrow> bool" where
  "isTerminal p = (length p = 0)"

definition Position_isMultiLand :: "'l list \<Rightarrow> bool" where
  "Position_isMultiLand p = (length p > 1)"

definition Position_empty :: "'l list \<Rightarrow> bool" where
  "Position_empty p = (p = [])"

definition getSubgames :: "'l list \<Rightarrow> 'l list list" where
  "getSubgames p = map (\<lambda>l. [l]) p"

definition getSubgamesNumber :: "'l list \<Rightarrow> nat" where
  "getSubgamesNumber p = length p"

text \<open>\<^verbatim>\<open>Position(std::vector<Position>)\<close> collects the lands of the given positions.\<close>

definition Position_of_positions :: "'l list list \<Rightarrow> 'l list" where
  "Position_of_positions ps = concat ps"

definition Position_getOutcome :: "'l list \<Rightarrow> Outcome" where
  "Position_getOutcome p = (if isTerminal p then Loss else Unknown)"

section \<open>NimberDatabase (\<^verbatim>\<open>nimber_database.hpp\<close>)\<close>

text \<open>The two \<^verbatim>\<open>unordered_map\<close>s are association lists with distinct keys, in the
  order in which the map iterates; the key \<^verbatim>\<open>Position::Compact\<close> is a string.\<close>

record NimberDatabase =
  db_threadSafe :: bool
  db_data :: "(string \<times> Nimber) list"
  trackNew :: bool
  trackedData :: "(string \<times> Nimber) list"

definition NimberDatabase_new :: "bool \<Rightarrow> bool \<Rightarrow> NimberDatabase" where
  "NimberDatabase_new tn ts = \<lparr>db_threadSafe = ts, db_data = [], trackNew = tn, trackedData = []\<rparr>"

text \<open>\<^verbatim>\<open>m[k] = v\<close> on an \<^verbatim>\<open>unordered_map\<close>.\<close>

fun assign :: "(string \<times> Nimber) list \<Rightarrow> string \<Rightarrow> Nimber \<Rightarrow> (string \<times> Nimber) list" where
  "assign [] k v = [(k, v)]"
| "assign ((k', v') # m) k v = (if k' = k then (k, v) # m else (k', v') # assign m k v)"

text \<open>\<^verbatim>\<open>m.insert({k, v})\<close>: stores nothing when the key is present; the flag is
  \<^verbatim>\<open>.second\<close>.\<close>

definition map_insert ::
  "(string \<times> Nimber) list \<Rightarrow> string \<Rightarrow> Nimber \<Rightarrow> (string \<times> Nimber) list \<times> bool" where
  "map_insert m k v = (if map_of m k = None then (m @ [(k, v)], True) else (m, False))"

definition NimberDatabase_get :: "NimberDatabase \<Rightarrow> string \<Rightarrow> Nimber option" where
  "NimberDatabase_get db cp = map_of (db_data db) cp"

definition NimberDatabase_insert :: "NimberDatabase \<Rightarrow> string \<Rightarrow> Nimber \<Rightarrow> NimberDatabase" where
  "NimberDatabase_insert db cp n =
     (let db' = (if trackNew db then db\<lparr>trackedData := assign (trackedData db) cp n\<rparr>
                 else db)
      in db'\<lparr>db_data := assign (db_data db') cp n\<rparr>)"

text \<open>\<^verbatim>\<open>get(const Game &position)\<close> looks up \<^verbatim>\<open>position.to_compact()\<close>.\<close>

definition get_position :: "'l Game \<Rightarrow> NimberDatabase \<Rightarrow> 'l list \<Rightarrow> Nimber option" where
  "get_position G db p = NimberDatabase_get db (to_string G p)"

section \<open>Couple (\<^verbatim>\<open>couple.hpp\<close>)\<close>

record 'l Couple =
  position :: "'l list"
  couple_nimber :: Nimber

definition to_compact :: "'l Game \<Rightarrow> 'l Couple \<Rightarrow> Compact" where
  "to_compact G c = \<lparr>compactPosition = to_string G (position c), nimber = couple_nimber c\<rparr>"

definition Couple_of_compact :: "'l Game \<Rightarrow> Compact \<Rightarrow> 'l Couple" where
  "Couple_of_compact G c = \<lparr>position = from_string G (compactPosition c), couple_nimber = nimber c\<rparr>"

definition getOutcome :: "'l Game \<Rightarrow> 'l Couple \<Rightarrow> Outcome" where
  "getOutcome G c =
     (if isTerminal (position c) then
        (if isNormalImpartial G then (if Nimber_isWin (couple_nimber c) then Win else Loss)
         else Position_getOutcome (position c))
      else Unknown)"

text \<open>The loop of \<^verbatim>\<open>mergeComputedLands\<close> over the subgames: the nimber, the flag
  \<^verbatim>\<open>modified\<close> and the vector \<^verbatim>\<open>uncomputedSubgames\<close>.\<close>

fun merge_loop ::
  "'l Game \<Rightarrow> NimberDatabase \<Rightarrow> 'l list list \<Rightarrow> Nimber \<times> bool \<times> 'l list list
     \<Rightarrow> Nimber \<times> bool \<times> 'l list list" where
  "merge_loop G db [] acc = acc"
| "merge_loop G db (subgame # rest) (n, modified, uncomputedSubgames) =
     (case get_position G db subgame of
        Some storedNimber \<Rightarrow>
          merge_loop G db rest (mergeNimbers n storedNimber, True, uncomputedSubgames)
      | None \<Rightarrow> merge_loop G db rest (n, modified, uncomputedSubgames @ [subgame]))"

definition mergeComputedLands :: "'l Game \<Rightarrow> NimberDatabase \<Rightarrow> 'l Couple \<Rightarrow> bool \<times> 'l Couple" where
  "mergeComputedLands G db c =
     (if \<not> isNormalImpartial G \<or> Position_empty (position c) then (False, c)
      else
        (case merge_loop G db (getSubgames (position c)) (couple_nimber c, False, []) of
           (n, modified, uncomputedSubgames) \<Rightarrow>
             (modified, \<lparr>position = Position_of_positions uncomputedSubgames, couple_nimber = n\<rparr>)))"

text \<open>\<^verbatim>\<open>std::to_string\<close> of an unsigned value: its decimal digits.\<close>

definition digit_char :: "nat \<Rightarrow> char" where
  "digit_char d = char_of (48 + d)"

function decimal :: "nat \<Rightarrow> string" where
  "decimal n = (if n < 10 then [digit_char n] else decimal (n div 10) @ [digit_char (n mod 10)])"
  by pat_completeness auto
termination
  by (relation "measure id") auto

declare decimal.simps [simp del]

definition Nimber_to_string :: "Nimber \<Rightarrow> string" where
  "Nimber_to_string n = decimal (unat n)"

definition Couple_to_string :: "'l Game \<Rightarrow> 'l Couple \<Rightarrow> string" where
  "Couple_to_string G c = to_string G (position c) @ '' '' @ Nimber_to_string (couple_nimber c)"

section \<open>Heuristics (\<^verbatim>\<open>heuristics.hpp\<close>)\<close>

definition DefaultGameComparer :: "'l Game \<Rightarrow> 'l list \<Rightarrow> 'l list \<Rightarrow> bool" where
  "DefaultGameComparer G first second =
     (if getLives G first \<noteq> getLives G second then getLives G first < getLives G second
      else if estimateChildrenNumber G first \<noteq> estimateChildrenNumber G second
      then estimateChildrenNumber G first < estimateChildrenNumber G second
      else to_string G first < to_string G second)"

definition nimberWeight :: nat where
  "nimberWeight = 4"

definition DefaultCoupleComparer :: "'l Game \<Rightarrow> 'l Couple \<Rightarrow> 'l Couple \<Rightarrow> bool" where
  "DefaultCoupleComparer G first second =
     (let firstLives = getLives G (position first) + nimberWeight * unat (couple_nimber first);
          secondLives = getLives G (position second) + nimberWeight * unat (couple_nimber second)
      in if firstLives \<noteq> secondLives then firstLives < secondLives
         else if isNormalImpartial G
                 \<and> getSubgamesNumber (position first) \<noteq> getSubgamesNumber (position second)
         then getSubgamesNumber (position first) > getSubgamesNumber (position second)
         else if estimateChildrenNumber G (position first)
                   \<noteq> estimateChildrenNumber G (position second)
         then estimateChildrenNumber G (position first) < estimateChildrenNumber G (position second)
         else Couple_to_string G first < Couple_to_string G second)"

text \<open>The sort key behind \<^verbatim>\<open>DefaultCoupleComparer\<close>, in lexicographic order: the comparer
  holds iff the key of the first couple is below the key of the second.\<close>

definition couple_key :: "'l Game \<Rightarrow> 'l Couple \<Rightarrow> nat \<times> int \<times> nat \<times> string" where
  "couple_key G c =
     (getLives G (position c) + nimberWeight * unat (couple_nimber c),
      - int (if isNormalImpartial G then getSubgamesNumber (position c) else 0),
      estimateChildrenNumber G (position c),
      Couple_to_string G c)"

text \<open>\<^verbatim>\<open>std::sort\<close> with a comparator: the standard library's, here by insertion. Any
  sorting algorithm gives the same vector up to the order of elements the comparator
  does not tell apart.\<close>

fun insort_by :: "('a \<Rightarrow> 'a \<Rightarrow> bool) \<Rightarrow> 'a \<Rightarrow> 'a list \<Rightarrow> 'a list" where
  "insort_by lt x [] = [x]"
| "insort_by lt x (y # ys) = (if lt x y then x # y # ys else y # insort_by lt x ys)"

definition std_sort :: "('a \<Rightarrow> 'a \<Rightarrow> bool) \<Rightarrow> 'a list \<Rightarrow> 'a list" where
  "std_sort lt xs = foldr (insort_by lt) xs []"

section \<open>Children of a couple (\<^verbatim>\<open>couple.hpp\<close>)\<close>

text \<open>The loop of \<^verbatim>\<open>computeChildren\<close> over the position's children; the database
  pointer may be null. The flag tells that the loop returned \<^verbatim>\<open>Outcome::Win\<close> early, with
  the vector \<^verbatim>\<open>children\<close> (here \<open>out\<close>) as filled so far.\<close>

fun position_children_loop ::
  "'l Game \<Rightarrow> NimberDatabase option \<Rightarrow> Nimber \<Rightarrow> 'l list list \<Rightarrow> 'l Couple list
     \<Rightarrow> bool \<times> 'l Couple list" where
  "position_children_loop G database n [] out = (False, out)"
| "position_children_loop G database n (positionChild # rest) out =
     (case database of
        None \<Rightarrow>
          position_children_loop G database n rest
            (out @ [\<lparr>position = positionChild, couple_nimber = n\<rparr>])
      | Some db \<Rightarrow>
          (if \<not> isNormalImpartial G \<and> \<not> isTerminal positionChild
              \<and> get_position G db positionChild \<noteq> None
           then (True, out)
           else
             let coupleChild =
                   snd (mergeComputedLands G db \<lparr>position = positionChild, couple_nimber = n\<rparr>)
             in if isTerminal (position coupleChild) then
                  (if getOutcome G coupleChild = Loss then (True, out)
                   else position_children_loop G database n rest out)
                else position_children_loop G database n rest (out @ [coupleChild])))"

text \<open>The Nim children: the loop \<^verbatim>\<open>for (Nimber k = 0; k < nimber; ++k)\<close> pushes
  \<^verbatim>\<open>Couple{position, k}\<close> for \<open>k\<close> from 0 up to the nimber, excluded.\<close>

definition nim_children :: "'l Couple \<Rightarrow> 'l Couple list" where
  "nim_children c =
     map (\<lambda>k. \<lparr>position = position c, couple_nimber = of_nat k\<rparr>) [0..<unat (couple_nimber c)]"

text \<open>A position child made a couple with the parent's nimber and folded through the
  database, as the loop does before it looks at the child.\<close>

definition folded_child :: "'l Game \<Rightarrow> NimberDatabase \<Rightarrow> Nimber \<Rightarrow> 'l list \<Rightarrow> 'l Couple" where
  "folded_child G db n p = snd (mergeComputedLands G db \<lparr>position = p, couple_nimber = n\<rparr>)"

definition computeChildren ::
  "'l Game \<Rightarrow> NimberDatabase option \<Rightarrow> 'l Couple \<Rightarrow> Outcome \<times> 'l Couple list" where
  "computeChildren G database c =
     (let outcome = getOutcome G c
      in if outcome \<noteq> Unknown then (outcome, [])
         else
           (case position_children_loop G database (couple_nimber c)
                   (Position_computeChildren G (position c)) (nim_children c) of
              (True, out) \<Rightarrow> (Win, out)
            | (False, out) \<Rightarrow>
                (if length out = 0 then (Loss, out)
                 else (Unknown, std_sort (DefaultCoupleComparer G) out))))"

section \<open>Updating the children of a node (\<^verbatim>\<open>pns_node.hpp\<close>)\<close>

definition getState :: "'l Game \<Rightarrow> Node \<Rightarrow> 'l Couple" where
  "getState G n = Couple_of_compact G (compactCouple (state n))"

text \<open>The loop of \<^verbatim>\<open>updateLands\<close>: \<open>kept\<close> holds the children before the iterator,
  \<open>rest\<close> those from the iterator on. A land proved a win is replaced by the child the
  factory makes for the next nimber and visited again, so the loop need not end: not
  returning is \<open>None\<close>. The factory gets the couple; its parent pointer is not
  modelled.\<close>

partial_function (option) lands_loop ::
  "('l Couple \<Rightarrow> Node) \<Rightarrow> 'l Game \<Rightarrow> NimberDatabase \<Rightarrow> Nimber \<Rightarrow> Node list \<Rightarrow> Node list
     \<Rightarrow> (Nimber \<times> Node list) option" where
  "lands_loop factory G db merged kept rest =
     (case rest of
        [] \<Rightarrow> Some (merged, kept)
      | c # cs \<Rightarrow>
          (case NimberDatabase_get db (compactPosition (compactCouple (state c))) of
             Some storedNimber \<Rightarrow>
               lands_loop factory G db (mergeNimbers merged storedNimber) kept cs
           | None \<Rightarrow>
               (if isLoss (getProofNumbers c) then
                  lands_loop factory G db
                    (mergeNimbers merged (nimber (compactCouple (state c)))) kept cs
                else if isWin (getProofNumbers c) then
                  lands_loop factory G db merged kept
                    (factory (Couple_of_compact G
                        \<lparr>compactPosition = compactPosition (compactCouple (state c)),
                         nimber = nimber (compactCouple (state c)) + 1\<rparr>) # cs)
                else lands_loop factory G db merged (kept @ [c]) cs)))"

definition updateLands ::
  "('l Couple \<Rightarrow> Node) \<Rightarrow> 'l Game \<Rightarrow> NimberDatabase \<Rightarrow> Node \<Rightarrow> Node option" where
  "updateLands factory G db n =
     (case (if length (children n) > 1
            then lands_loop factory G db (mergedNimber (info n)) [] (children n)
            else Some (mergedNimber (info n), children n)) of
        None \<Rightarrow> None
      | Some (m, cs) \<Rightarrow>
          Some
            (if length cs = 1 then
               (let lastChild =
                      (if nimber (compactCouple (state (cs ! 0))) \<noteq> m
                       then factory \<lparr>position = position (getState G (cs ! 0)), couple_nimber = m\<rparr>
                       else cs ! 0);
                    n' = Node (workingThreadsNum n) (state n) ((info n)\<lparr>mergedNimber := m\<rparr>) [lastChild]
                in if isWin (getProofNumbers lastChild) then setToWin n'
                   else if isLoss (getProofNumbers lastChild) then setToLoss n'
                   else n')
             else if length cs = 0 then
               (if Nimber_isWin m then setToWin (Node (workingThreadsNum n) (state n) ((info n)\<lparr>mergedNimber := m\<rparr>) cs)
                else setToLoss (Node (workingThreadsNum n) (state n) ((info n)\<lparr>mergedNimber := m\<rparr>) cs))
             else Node (workingThreadsNum n) (state n) ((info n)\<lparr>mergedNimber := m\<rparr>) cs))"

definition updateChildren ::
  "('l Couple \<Rightarrow> Node) \<Rightarrow> 'l Game \<Rightarrow> NimberDatabase \<Rightarrow> Node \<Rightarrow> Node option" where
  "updateChildren factory G db n =
     (if PnsNode_isProved n \<or> \<not> isExpanded n then Some n
      else if isMultiLandNode n then updateLands factory G db n
      else Some (updateSingleLandChildren n))"

text \<open>\<^verbatim>\<open>update\<close>: \<open>None\<close> when \<^verbatim>\<open>updateChildren\<close> does not return, \<open>Inl\<close> when
  \<^verbatim>\<open>updateInfo\<close> throws.\<close>

definition update ::
  "('l Couple \<Rightarrow> Node) \<Rightarrow> 'l Game \<Rightarrow> NimberDatabase \<Rightarrow> Node \<Rightarrow> (error + Node) option" where
  "update factory G db n =
     (case updateChildren factory G db n of
        None \<Rightarrow> None
      | Some n' \<Rightarrow> Some (updateInfo n'))"

section \<open>Thresholds of df-pn (\<^verbatim>\<open>dfpn.hpp\<close>)\<close>












section \<open>Choosing the most proving child (\<^verbatim>\<open>pns_node.hpp\<close>)\<close>





text \<open>The constructors \<^verbatim>\<open>PnsNode(c, proofNumbers, iterations)\<close> and \<^verbatim>\<open>State(c)\<close>.\<close>

definition State_of :: "'l Game \<Rightarrow> 'l Couple \<Rightarrow> State" where
  "State_of G c =
     \<lparr>compactCouple = to_compact G c, lives = getLives G (position c),
      isMultiLand = Position_isMultiLand (position c)\<rparr>"

definition PnsNode_new :: "'l Game \<Rightarrow> 'l Couple \<Rightarrow> ProofNumbers \<Rightarrow> 64 word \<Rightarrow> Node" where
  "PnsNode_new G c pn its =
     Node 0 (State_of G c)
       \<lparr>info_proofNumbers = pn, info_iterations = its, locked = False, expanded = False,
        overestimated = False, mergedNimber = 0\<rparr> []"


text \<open>A caller's sequence of calls on one node, each on the node the call before left;
  the sequence stops at the first call that throws or does not return.\<close>

datatype node_call = Update | UpdateChildren | UpdateInfo

fun run_calls ::
  "('l Couple \<Rightarrow> Node) \<Rightarrow> 'l Game \<Rightarrow> NimberDatabase \<Rightarrow> node_call list \<Rightarrow> Node
     \<Rightarrow> (error + Node) option" where
  "run_calls factory G db [] n = Some (Inr n)"
| "run_calls factory G db (c # cs) n =
     (case (case c of
              Update \<Rightarrow> update factory G db n
            | UpdateChildren \<Rightarrow> map_option Inr (updateChildren factory G db n)
            | UpdateInfo \<Rightarrow> Some (updateInfo n)) of
        Some (Inr n') \<Rightarrow> run_calls factory G db cs n'
      | r \<Rightarrow> r)"

section \<open>Storing and loading the nimber database (\<^verbatim>\<open>nimber_database.hpp\<close>)\<close>

text \<open>A file is the string of its bytes; that the file cannot be opened (both functions
  then throw \<^verbatim>\<open>std::ios_base::failure\<close>) is outside the model. \<^verbatim>\<open>store\<close> gives the bytes
  it writes, \<^verbatim>\<open>load\<close> takes the bytes it reads.\<close>

definition newline :: char where
  "newline = CHR 0x0A"

definition header_impartial :: string where
  "header_impartial = ''[Positions+Nimber]''"

definition header_misere :: string where
  "header_misere = ''[WinLoss_Misere:Losing_Position]''"

definition store_line :: "'l Game \<Rightarrow> string \<times> Nimber \<Rightarrow> string" where
  "store_line G e =
     (if isNormalImpartial G then fst e @ '' '' @ decimal (unat (snd e)) else fst e)"

definition NimberDatabase_store :: "'l Game \<Rightarrow> NimberDatabase \<Rightarrow> bool \<Rightarrow> string" where
  "NimberDatabase_store G db srt =
     (let outputStrings = map (store_line G) (db_data db)
      in (if isNormalImpartial G then header_impartial else header_misere) @ [newline]
         @ concat (map (\<lambda>l. l @ [newline]) (if srt then sort outputStrings else outputStrings)))"

text \<open>The lines that the loop \<^verbatim>\<open>while (getline(f, line))\<close> reads: \<open>cur\<close> is the line read
  so far. At the end of the file a line with no character is not returned.\<close>

fun getlines :: "string \<Rightarrow> string \<Rightarrow> string list" where
  "getlines [] cur = (if cur = [] then [] else [cur])"
| "getlines (c # cs) cur = (if c = newline then cur # getlines cs [] else getlines cs (cur @ [c]))"

text \<open>\<^verbatim>\<open>std::stoul\<close> of the standard library, in base 10: it skips leading white space,
  takes an optional sign and the longest run of digits, and ignores what follows. With
  no digit it throws \<^verbatim>\<open>std::invalid_argument\<close>, with a value beyond 64 bits
  \<^verbatim>\<open>std::out_of_range\<close> (both \<open>None\<close> here); a minus sign negates the value in the
  unsigned type.\<close>

definition isspace :: "char \<Rightarrow> bool" where
  "isspace c = (c = CHR '' '' \<or> (CHR 0x09 \<le> c \<and> c \<le> CHR 0x0D))"

definition isdigit :: "char \<Rightarrow> bool" where
  "isdigit c = (CHR ''0'' \<le> c \<and> c \<le> CHR ''9'')"

definition digits_value :: "string \<Rightarrow> nat" where
  "digits_value ds = foldl (\<lambda>a c. 10 * a + (of_char c - 48)) 0 ds"

definition stoul :: "string \<Rightarrow> nat option" where
  "stoul s =
     (let s1 = dropWhile isspace s;
          neg = (case s1 of c # r \<Rightarrow> c = CHR ''-'' | [] \<Rightarrow> False);
          s2 = (case s1 of c # r \<Rightarrow> (if c = CHR ''+'' \<or> c = CHR ''-'' then r else s1) | [] \<Rightarrow> s1);
          ds = takeWhile isdigit s2
      in if ds = [] then None
         else if digits_value ds \<ge> 2 ^ 64 then None
         else Some (if neg then (2 ^ 64 - digits_value ds) mod 2 ^ 64 else digits_value ds))"

text \<open>\<^verbatim>\<open>line.find_first_of(" ")\<close>: \<open>None\<close> is \<^verbatim>\<open>npos\<close>.\<close>

definition find_first_of :: "string \<Rightarrow> char \<Rightarrow> nat option" where
  "find_first_of s c = (if c \<in> set s then Some (length (takeWhile (\<lambda>x. x \<noteq> c) s)) else None)"

text \<open>\<^verbatim>\<open>parseLine\<close>: \<open>None\<close> when an exception is caught. With no separator,
  \<^verbatim>\<open>substr(0, npos)\<close> is the whole line and so is \<^verbatim>\<open>substr(npos + 1)\<close>, since
  \<^verbatim>\<open>npos + 1\<close> wraps to 0.\<close>

definition parseLine :: "'l Game \<Rightarrow> string \<Rightarrow> (string \<times> Nimber) option" where
  "parseLine G line =
     (let separatorIndex = find_first_of line (CHR '' '');
          positionStr = (case separatorIndex of None \<Rightarrow> line | Some i \<Rightarrow> take i line);
          nimberStr = (if isNormalImpartial G
                       then (case separatorIndex of None \<Rightarrow> line | Some i \<Rightarrow> drop (i + 1) line)
                       else ''0'')
      in case stoul nimberStr of
           None \<Rightarrow> None
         | Some v \<Rightarrow> Some (positionStr, of_nat v))"

text \<open>The loop of \<^verbatim>\<open>load\<close> over the lines, on the map \<^verbatim>\<open>data\<close> and the counter
  \<^verbatim>\<open>inserted\<close>.\<close>

fun load_lines ::
  "'l Game \<Rightarrow> string list \<Rightarrow> (string \<times> Nimber) list \<times> nat \<Rightarrow> (string \<times> Nimber) list \<times> nat" where
  "load_lines G [] acc = acc"
| "load_lines G (line # rest) (d, inserted) =
     (if line = header_impartial \<or> line = header_misere \<or> line = [] then
        load_lines G rest (d, inserted)
      else
        (case parseLine G line of
           Some (cp, n) \<Rightarrow>
             (if snd (map_insert d cp n)
              then load_lines G rest (fst (map_insert d cp n), inserted + 1)
              else load_lines G rest (fst (map_insert d cp n), inserted))
         | None \<Rightarrow> load_lines G rest (d, inserted)))"

definition NimberDatabase_load :: "'l Game \<Rightarrow> NimberDatabase \<Rightarrow> string \<Rightarrow> NimberDatabase \<times> nat" where
  "NimberDatabase_load G db file =
     (case load_lines G (getlines file []) (db_data db, 0) of
        (d, inserted) \<Rightarrow> (db\<lparr>db_data := d\<rparr>, inserted))"

section \<open>A small game for evaluating the definitions\<close>

text \<open>Nim with heaps of at most nine: a land is a heap, written as its digit; a move
  lowers one heap, and a heap lowered to nothing leaves the position. The empty position
  is written \<open>!\<close>, as the game layer writes the separator for it.\<close>

definition heap_of :: "char \<Rightarrow> nat" where
  "heap_of c = of_char c - 48"

definition toy_children :: "string \<Rightarrow> string list" where
  "toy_children p =
     concat (map (\<lambda>i. map (\<lambda>d. take i p @ (if d = 0 then [] else [digit_char d]) @ drop (Suc i) p)
                        [0..<heap_of (p ! i)])
               [0..<length p])"

definition toy_game :: "char Game" where
  "toy_game =
     \<lparr>isNormalImpartial = True,
      to_string = (\<lambda>p. if p = [] then ''!'' else p),
      from_string = filter (\<lambda>c. c \<noteq> CHR ''!''),
      getLives = (\<lambda>p. sum_list (map heap_of p)),
      estimateChildrenNumber = (\<lambda>p. sum_list (map heap_of p)),
      Position_computeChildren = toy_children\<rparr>"

definition toy_factory :: "char Couple \<Rightarrow> Node" where
  "toy_factory c = PnsNode_new toy_game c \<lparr>pn_proof = 1, pn_disproof = 1\<rparr> 0"

definition toy_db :: NimberDatabase where
  "toy_db = NimberDatabase_insert (NimberDatabase_new False False) ''2'' 2"

text \<open>Two databases for evaluating \<^verbatim>\<open>store\<close> and \<^verbatim>\<open>load\<close>: one with two positions of
  the small game, one with a key that holds a space.\<close>

definition toy_db2 :: NimberDatabase where
  "toy_db2 = NimberDatabase_insert toy_db ''1'' 1"

definition spaced_db :: NimberDatabase where
  "spaced_db = NimberDatabase_insert (NimberDatabase_new False False) ''a 1'' 3"

text \<open>An expanded plain node of the small game: the couple \<open>(3, 1)\<close> with its Nim child
  and two position children, as the factory makes them.\<close>

definition toy_node :: Node where
  "toy_node =
     Node 0 (State_of toy_game \<lparr>position = ''3'', couple_nimber = 1\<rparr>)
       \<lparr>info_proofNumbers = \<lparr>pn_proof = 1, pn_disproof = 1\<rparr>, info_iterations = 0,
        locked = False, expanded = True, overestimated = False, mergedNimber = 0\<rparr>
       [toy_factory \<lparr>position = ''3'', couple_nimber = 0\<rparr>,
        toy_factory \<lparr>position = ''1'', couple_nimber = 1\<rparr>,
        toy_factory \<lparr>position = ''2'', couple_nimber = 1\<rparr>]"




text \<open>The invariant of the eviction scan over the first \<open>m\<close> slots, with \<open>r\<close> the
  candidate victim, for values ordered by \<^verbatim>\<open>StoredNodeInfo::operator<\<close>.\<close>

definition victim_inv :: "(nat \<Rightarrow> StoredNodeInfo) \<Rightarrow> nat \<Rightarrow> nat \<Rightarrow> bool" where
  "victim_inv v m r \<longleftrightarrow>
     r < m
   \<and> (\<forall>i<m. isProved (proofNumbers (v i)) \<longrightarrow> i \<le> r)
   \<and> (\<forall>i<m. r < i \<longrightarrow> iterations (v r) \<le> iterations (v i))
   \<and> (\<forall>i<r. (\<forall>j<m. i < j \<longrightarrow> \<not> isProved (proofNumbers (v j)))
          \<longrightarrow> iterations (v r) < iterations (v i))"


text \<open>A full bucket of the df-pn table, used to evaluate the eviction: three unproved
  entries with 5, 7 and 9 iterations, then a proved entry with 100 iterations.\<close>

definition example_entry :: "string \<Rightarrow> Value \<Rightarrow> Value \<Rightarrow> 64 word \<Rightarrow> (Compact, StoredNodeInfo) TTEntry" where
  "example_entry s p d n =
     \<lparr>key = \<lparr>compactPosition = s, nimber = 0\<rparr>,
      val = \<lparr>proofNumbers = \<lparr>pn_proof = p, pn_disproof = d\<rparr>, iterations = n\<rparr>,
      occupied = True\<rparr>"

definition example_bucket :: "(Compact, StoredNodeInfo) Bucket" where
  "example_bucket =
     [example_entry ''a'' 1 1 5, example_entry ''b'' 1 1 7,
      example_entry ''c'' 1 1 9, example_entry ''d'' 0 (- 1) 100]"

definition example_table :: "(Compact, StoredNodeInfo) BucketTable" where
  "example_table = \<lparr>data = [example_bucket], size_ctr = 4, threadSafe = False\<rparr>"

definition example_hash :: "Compact \<Rightarrow> nat" where
  "example_hash c = length (compactPosition c)"

definition example_key :: Compact where
  "example_key = \<lparr>compactPosition = ''e'', nimber = 0\<rparr>"

definition example_value :: StoredNodeInfo where
  "example_value = \<lparr>proofNumbers = \<lparr>pn_proof = 2, pn_disproof = 3\<rparr>, iterations = 1\<rparr>"

section \<open>Theorems\<close>

subsection \<open>The replacement policy of the transposition table\<close>

lemma victim_inv_start: "victim_inv v (Suc 0) 0"
  by (simp add: victim_inv_def)

lemma victim_inv_step:
  assumes "victim_inv v m r"
  shows "victim_inv v (Suc m) (if StoredNodeInfo_less (v m) (v r) then m else r)"
proof (cases "StoredNodeInfo_less (v m) (v r)")
  case True
  have a: "r < m" using assms by (simp add: victim_inv_def)
  have "iterations (v m) < iterations (v i)"
    if i: "i < m" and np: "\<forall>j<Suc m. i < j \<longrightarrow> \<not> isProved (proofNumbers (v j))" for i
  proof -
    from np i have "\<not> isProved (proofNumbers (v m))" by simp
    with True have mr: "iterations (v m) < iterations (v r)"
      by (simp add: StoredNodeInfo_less_def)
    consider "i = r" | "i < r" | "r < i" by arith
    then show ?thesis
    proof cases
      case 1 with mr show ?thesis by simp
    next
      case 2
      from np have "\<forall>j<m. i < j \<longrightarrow> \<not> isProved (proofNumbers (v j))" by simp
      with assms 2 have "iterations (v r) < iterations (v i)"
        by (simp add: victim_inv_def)
      with mr show ?thesis by simp
    next
      case 3
      with assms i have "iterations (v r) \<le> iterations (v i)"
        by (simp add: victim_inv_def)
      with mr show ?thesis by simp
    qed
  qed
  with True show ?thesis
    by (simp add: victim_inv_def)
next
  case False
  then have np: "\<not> isProved (proofNumbers (v m))" and le: "iterations (v r) \<le> iterations (v m)"
    by (simp_all add: StoredNodeInfo_less_def not_less)
  have 1: "r < Suc m" using assms by (simp add: victim_inv_def)
  have 2: "\<forall>i<Suc m. isProved (proofNumbers (v i)) \<longrightarrow> i \<le> r"
    using assms np by (auto simp: victim_inv_def less_Suc_eq)
  have 3: "\<forall>i<Suc m. r < i \<longrightarrow> iterations (v r) \<le> iterations (v i)"
    using assms le by (auto simp: victim_inv_def less_Suc_eq)
  have 4: "\<forall>i<r. (\<forall>j<Suc m. i < j \<longrightarrow> \<not> isProved (proofNumbers (v j)))
          \<longrightarrow> iterations (v r) < iterations (v i)"
    using assms by (simp add: victim_inv_def)
  from False 1 2 3 4 show ?thesis
    by (simp add: victim_inv_def)
qed

lemma victim_props:
  fixes v :: "nat \<Rightarrow> StoredNodeInfo"
  shows "victim_inv v 4
     (let r1 = (if StoredNodeInfo_less (v 1) (v 0) then 1 else 0);
          r2 = (if StoredNodeInfo_less (v 2) (v r1) then 2 else r1)
      in (if StoredNodeInfo_less (v 3) (v r2) then 3 else r2))"
proof -
  have e: "(1::nat) = Suc 0" "(2::nat) = Suc (Suc 0)" "(3::nat) = Suc (Suc (Suc 0))"
    "(4::nat) = Suc (Suc (Suc (Suc 0)))" by simp_all
  note s1 = victim_inv_step [OF victim_inv_start [of v]]
  note s2 = victim_inv_step [OF s1]
  note s3 = victim_inv_step [OF s2]
  show ?thesis
    unfolding Let_def e by (rule s3)
qed

lemma insert_scan_first:
  "m < BUCKET_SIZE \<Longrightarrow> i \<le> m \<Longrightarrow> (\<forall>j. i \<le> j \<and> j < m \<longrightarrow> occupied (es ! j) \<and> key (es ! j) \<noteq> k)
   \<Longrightarrow> \<not> occupied (es ! m) \<or> key (es ! m) = k \<Longrightarrow> insert_scan P k es i r = m"
proof (induction "m - i" arbitrary: i r)
  case 0
  then show ?case by (simp add: insert_scan.simps [of P k es i r])
next
  case (Suc d)
  then have "i < m" by simp
  with Suc.prems have st: "occupied (es ! i) \<and> key (es ! i) \<noteq> k" by simp
  have "insert_scan P k es (i + 1) r' = m" for r'
    using Suc by (intro Suc.hyps(1)) auto
  with st Suc.prems show ?case
    by (simp add: insert_scan.simps [of P k es i r])
qed

lemma insert_scan_step:
  "i < BUCKET_SIZE \<Longrightarrow> occupied (es ! i) \<and> key (es ! i) \<noteq> k \<Longrightarrow>
   insert_scan P k es i r = insert_scan P k es (i + 1)
                (if i \<noteq> 0 \<and> value_less P (val (es ! i)) (val (es ! r)) then i else r)"
  by (subst insert_scan.simps) simp

lemma insert_scan_end: "insert_scan P k es BUCKET_SIZE r = r"
  by (subst insert_scan.simps) simp

lemma insert_scan_full:
  assumes "\<forall>i<BUCKET_SIZE. occupied (es ! i) \<and> key (es ! i) \<noteq> k"
  shows "insert_scan P k es 0 0 =
     (let r1 = (if value_less P (val (es ! 1)) (val (es ! 0)) then 1 else 0);
          r2 = (if value_less P (val (es ! 2)) (val (es ! r1)) then 2 else r1)
      in (if value_less P (val (es ! 3)) (val (es ! r2)) then 3 else r2))"
proof -
  have o: "occupied (es ! i) \<and> key (es ! i) \<noteq> k" if "i < 4" for i
    using assms that by (simp add: BUCKET_SIZE_def)
  have b: "(0::nat) < BUCKET_SIZE" "(1::nat) < BUCKET_SIZE" "(2::nat) < BUCKET_SIZE"
    "(3::nat) < BUCKET_SIZE" "(4::nat) = BUCKET_SIZE"
    by (simp_all add: BUCKET_SIZE_def)
  have e4: "insert_scan P k es 4 r = r" for r
    using insert_scan_end [of P k es r] b(5) by simp
  have e3: "insert_scan P k es 3 r = (if value_less P (val (es ! 3)) (val (es ! r)) then 3 else r)" for r
    using insert_scan_step [OF b(4) o [of 3], of P r] e4 by (simp add: eval_nat_numeral)
  have e2: "insert_scan P k es 2 r =
      insert_scan P k es 3 (if value_less P (val (es ! 2)) (val (es ! r)) then 2 else r)" for r
    using insert_scan_step [OF b(3) o [of 2], of P r] by (simp add: eval_nat_numeral)
  have e1: "insert_scan P k es 1 r =
      insert_scan P k es 2 (if value_less P (val (es ! 1)) (val (es ! r)) then 1 else r)" for r
    using insert_scan_step [OF b(2) o [of 1], of P r] by (simp add: eval_nat_numeral)
  have e0: "insert_scan P k es 0 0 = insert_scan P k es 1 0"
    using insert_scan_step [OF b(1) o [of 0], of P 0] by (simp add: eval_nat_numeral)
  show ?thesis
    unfolding e0 e1 e2 Let_def by (rule e3)
qed

lemma dfpn_table_simps [simp]:
  "Hash (dfpn_table h) = h"
  "value_less (dfpn_table h) = StoredNodeInfo_less"
  "value_update (dfpn_table h) = StoredNodeInfo_update"
  "value_mark (dfpn_table h) = StoredNodeInfo_mark"
  "value_unmark (dfpn_table h) = StoredNodeInfo_unmark"
  by (simp_all add: dfpn_table_def)

lemma insert_full_bucket:
  fixes t :: "(Compact, StoredNodeInfo) BucketTable"
  assumes ne: "data t \<noteq> []"
    and b: "b = h k mod length (data t)"
    and es: "es = data t ! b"
    and full: "\<forall>i<BUCKET_SIZE. occupied (es ! i) \<and> key (es ! i) \<noteq> k"
  shows "\<exists>r<BUCKET_SIZE.
         BucketTable_insert (dfpn_table h) t k v
           = (None, t\<lparr>data := (data t)[b := es[r := new_entry k v]]\<rparr>)
       \<and> (\<forall>i<BUCKET_SIZE. isProved (proofNumbers (val (es ! i))) \<longrightarrow> i \<le> r)
       \<and> (\<forall>i<BUCKET_SIZE. r < i \<longrightarrow> iterations (val (es ! r)) \<le> iterations (val (es ! i)))
       \<and> (\<forall>i<r. (\<forall>j<BUCKET_SIZE. i < j \<longrightarrow> \<not> isProved (proofNumbers (val (es ! j))))
              \<longrightarrow> iterations (val (es ! r)) < iterations (val (es ! i)))"
proof -
  define r where "r = insert_scan (dfpn_table h) k es 0 0"
  have inv: "victim_inv (\<lambda>i. val (es ! i)) 4 r"
    unfolding r_def insert_scan_full [OF full] dfpn_table_simps
    using victim_props [of "\<lambda>i. val (es ! i)"] by simp
  then have r4: "r < BUCKET_SIZE" by (simp add: victim_inv_def BUCKET_SIZE_def)
  with full have occ: "occupied (es ! r)" "key (es ! r) \<noteq> k" by simp_all
  have ins: "BucketTable_insert (dfpn_table h) t k v
           = (None, t\<lparr>data := (data t)[b := es[r := new_entry k v]]\<rparr>)"
    using ne occ by (simp add: BucketTable_insert_def Let_def b [symmetric] es [symmetric] r_def [symmetric])
  from inv r4 ins show ?thesis
    unfolding victim_inv_def BUCKET_SIZE_def by blast
qed

lemma insert_first_slot:
  fixes t :: "(Compact, StoredNodeInfo) BucketTable"
  assumes ne: "data t \<noteq> []"
    and b: "b = h k mod length (data t)"
    and es: "es = data t ! b"
    and m: "m < BUCKET_SIZE"
    and before: "\<forall>j<m. occupied (es ! j) \<and> key (es ! j) \<noteq> k"
  shows "occupied (es ! m) \<and> key (es ! m) = k \<longrightarrow>
         BucketTable_insert (dfpn_table h) t k v
           = (Some (val (es ! m)),
              t\<lparr>data := (data t)[b := es[m := (es ! m)\<lparr>val := StoredNodeInfo_update (val (es ! m)) v\<rparr>]]\<rparr>)"
    and "\<not> occupied (es ! m) \<longrightarrow>
         BucketTable_insert (dfpn_table h) t k v
           = (None, t\<lparr>data := (data t)[b := es[m := new_entry k v]], size_ctr := size_ctr t + 1\<rparr>)"
proof -
  have r: "insert_scan (dfpn_table h) k es 0 0 = m" if "\<not> occupied (es ! m) \<or> key (es ! m) = k"
    using insert_scan_first [OF m _ _ that, of 0] before by simp
  show "occupied (es ! m) \<and> key (es ! m) = k \<longrightarrow>
         BucketTable_insert (dfpn_table h) t k v
           = (Some (val (es ! m)),
              t\<lparr>data := (data t)[b := es[m := (es ! m)\<lparr>val := StoredNodeInfo_update (val (es ! m)) v\<rparr>]]\<rparr>)"
    using ne r by (simp add: BucketTable_insert_def Let_def b [symmetric] es [symmetric])
  show "\<not> occupied (es ! m) \<longrightarrow>
         BucketTable_insert (dfpn_table h) t k v
           = (None, t\<lparr>data := (data t)[b := es[m := new_entry k v]], size_ctr := size_ctr t + 1\<rparr>)"
    using ne r by (simp add: BucketTable_insert_def Let_def b [symmetric] es [symmetric])
qed


lemma all_lt4: "(\<forall>i<4. Q i) = (Q 0 \<and> Q 1 \<and> Q 2 \<and> Q (3::nat))"
proof -
  have "i < 4 \<longleftrightarrow> i = 0 \<or> i = 1 \<or> i = 2 \<or> i = 3" for i :: nat by arith
  then show ?thesis by auto
qed

lemma example_bucket_nth:
  "example_bucket ! 0 = example_entry ''a'' 1 1 5"
  "example_bucket ! 1 = example_entry ''b'' 1 1 7"
  "example_bucket ! 2 = example_entry ''c'' 1 1 9"
  "example_bucket ! 3 = example_entry ''d'' 0 (- 1) 100"
  by (simp_all add: example_bucket_def)

lemma example_bucket_full:
  "\<forall>i<BUCKET_SIZE. occupied (example_bucket ! i) \<and> key (example_bucket ! i) \<noteq> example_key"
  by (simp add: BUCKET_SIZE_def all_lt4 example_bucket_def example_entry_def example_key_def)

text \<open>C2, as the code has it: when \<^verbatim>\<open>insert\<close> finds the bucket full with no matching
  key, it replaces one slot \<open>r\<close> and returns none. \<^verbatim>\<open>StoredNodeInfo::operator<\<close> ranks a
  proved value below every value, and an unproved one by its iterations; so no proved
  value sits after the victim, every later slot has at least the victim's iterations, and
  every earlier slot with no proved value after it has more iterations than the victim
  (with no proved value in the bucket the victim is the first slot of fewest iterations).
  When the first slot that is empty or holds the key is an occupied slot holding the key,
  its value is updated by \<^verbatim>\<open>update\<close> and the prior value is returned; when it is an
  empty slot, the entry is stored there, the size grows by one and none is returned.\<close>

theorem insert_replacement_policy:
  fixes t :: "(Compact, StoredNodeInfo) BucketTable"
  assumes "data t \<noteq> []"
    and "b = h k mod length (data t)"
    and "es = data t ! b"
  shows
    "((\<forall>i<BUCKET_SIZE. occupied (es ! i) \<and> key (es ! i) \<noteq> k) \<longrightarrow>
        (\<exists>r<BUCKET_SIZE.
           BucketTable_insert (dfpn_table h) t k v
             = (None, t\<lparr>data := (data t)[b := es[r := new_entry k v]]\<rparr>)
         \<and> (\<forall>i<BUCKET_SIZE. isProved (proofNumbers (val (es ! i))) \<longrightarrow> i \<le> r)
         \<and> (\<forall>i<BUCKET_SIZE. r < i \<longrightarrow> iterations (val (es ! r)) \<le> iterations (val (es ! i)))
         \<and> (\<forall>i<r. (\<forall>j<BUCKET_SIZE. i < j \<longrightarrow> \<not> isProved (proofNumbers (val (es ! j))))
                \<longrightarrow> iterations (val (es ! r)) < iterations (val (es ! i)))))
   \<and> (\<forall>m<BUCKET_SIZE. (\<forall>j<m. occupied (es ! j) \<and> key (es ! j) \<noteq> k)
          \<and> occupied (es ! m) \<and> key (es ! m) = k \<longrightarrow>
         BucketTable_insert (dfpn_table h) t k v
           = (Some (val (es ! m)),
              t\<lparr>data := (data t)[b := es[m := (es ! m)\<lparr>val := StoredNodeInfo_update (val (es ! m)) v\<rparr>]]\<rparr>))
   \<and> (\<forall>m<BUCKET_SIZE. (\<forall>j<m. occupied (es ! j) \<and> key (es ! j) \<noteq> k)
          \<and> \<not> occupied (es ! m) \<longrightarrow>
         BucketTable_insert (dfpn_table h) t k v
           = (None, t\<lparr>data := (data t)[b := es[m := new_entry k v]], size_ctr := size_ctr t + 1\<rparr>))
   \<and> (isProved (proofNumbers x) \<longrightarrow> StoredNodeInfo_less x y)
   \<and> (\<not> isProved (proofNumbers x) \<longrightarrow> StoredNodeInfo_less x y = (iterations x < iterations y))"
proof (intro conjI)
  show "(\<forall>i<BUCKET_SIZE. occupied (es ! i) \<and> key (es ! i) \<noteq> k) \<longrightarrow>
        (\<exists>r<BUCKET_SIZE.
           BucketTable_insert (dfpn_table h) t k v
             = (None, t\<lparr>data := (data t)[b := es[r := new_entry k v]]\<rparr>)
         \<and> (\<forall>i<BUCKET_SIZE. isProved (proofNumbers (val (es ! i))) \<longrightarrow> i \<le> r)
         \<and> (\<forall>i<BUCKET_SIZE. r < i \<longrightarrow> iterations (val (es ! r)) \<le> iterations (val (es ! i)))
         \<and> (\<forall>i<r. (\<forall>j<BUCKET_SIZE. i < j \<longrightarrow> \<not> isProved (proofNumbers (val (es ! j))))
                \<longrightarrow> iterations (val (es ! r)) < iterations (val (es ! i))))"
    using insert_full_bucket [of t b h k es v] assms by blast
  show "\<forall>m<BUCKET_SIZE. (\<forall>j<m. occupied (es ! j) \<and> key (es ! j) \<noteq> k)
          \<and> occupied (es ! m) \<and> key (es ! m) = k \<longrightarrow>
         BucketTable_insert (dfpn_table h) t k v
           = (Some (val (es ! m)),
              t\<lparr>data := (data t)[b := es[m := (es ! m)\<lparr>val := StoredNodeInfo_update (val (es ! m)) v\<rparr>]]\<rparr>)"
  proof (intro allI impI)
    fix m
    assume "m < BUCKET_SIZE"
      and "(\<forall>j<m. occupied (es ! j) \<and> key (es ! j) \<noteq> k) \<and> occupied (es ! m) \<and> key (es ! m) = k"
    then show "BucketTable_insert (dfpn_table h) t k v
           = (Some (val (es ! m)),
              t\<lparr>data := (data t)[b := es[m := (es ! m)\<lparr>val := StoredNodeInfo_update (val (es ! m)) v\<rparr>]]\<rparr>)"
      using insert_first_slot(1) [of t b h k es m v] assms by blast
  qed
  show "\<forall>m<BUCKET_SIZE. (\<forall>j<m. occupied (es ! j) \<and> key (es ! j) \<noteq> k)
          \<and> \<not> occupied (es ! m) \<longrightarrow>
         BucketTable_insert (dfpn_table h) t k v
           = (None, t\<lparr>data := (data t)[b := es[m := new_entry k v]], size_ctr := size_ctr t + 1\<rparr>)"
  proof (intro allI impI)
    fix m
    assume "m < BUCKET_SIZE"
      and "(\<forall>j<m. occupied (es ! j) \<and> key (es ! j) \<noteq> k) \<and> \<not> occupied (es ! m)"
    then show "BucketTable_insert (dfpn_table h) t k v
           = (None, t\<lparr>data := (data t)[b := es[m := new_entry k v]], size_ctr := size_ctr t + 1\<rparr>)"
      using insert_first_slot(2) [of t b h k es m v] assms by blast
  qed
  show "isProved (proofNumbers x) \<longrightarrow> StoredNodeInfo_less x y"
    by (simp add: StoredNodeInfo_less_def)
  show "\<not> isProved (proofNumbers x) \<longrightarrow> StoredNodeInfo_less x y = (iterations x < iterations y)"
    by (simp add: StoredNodeInfo_less_def)
qed


theorem insert_replacement_policy_witness:
  "data example_table \<noteq> []
   \<and> occupied (example_bucket ! 3) \<and> key (example_bucket ! 3) \<noteq> example_key
   \<and> isProved (proofNumbers (val (example_bucket ! 3)))
   \<and> BucketTable_insert (dfpn_table example_hash) example_table example_key example_value
       = (None, example_table\<lparr>data := [example_bucket[3 := new_entry example_key example_value]]\<rparr>)"
proof -
  have a: "data example_table \<noteq> []" by (simp add: example_table_def)
  have b: "(0::nat) = example_hash example_key mod length (data example_table)"
    by (simp add: example_table_def)
  have c: "example_bucket = data example_table ! 0" by (simp add: example_table_def)
  have p3: "isProved (proofNumbers (val (example_bucket ! 3)))"
    by (simp add: example_bucket_nth example_entry_def isProved_def isWin_def Value_eq_def)
  have o3: "occupied (example_bucket ! 3) \<and> key (example_bucket ! 3) \<noteq> example_key"
    using example_bucket_full by (simp add: BUCKET_SIZE_def)
  from a b c example_bucket_full
    insert_replacement_policy [of example_table 0 example_hash example_key example_bucket
      example_value]
  obtain r where r: "r < BUCKET_SIZE"
    and ins: "BucketTable_insert (dfpn_table example_hash) example_table example_key example_value
          = (None, example_table\<lparr>data := (data example_table)[0 := example_bucket[r := new_entry example_key example_value]]\<rparr>)"
    and pr: "\<forall>i<BUCKET_SIZE. isProved (proofNumbers (val (example_bucket ! i))) \<longrightarrow> i \<le> r"
    by blast
  from pr p3 have "3 \<le> r" by (simp add: BUCKET_SIZE_def)
  with r have "r = 3" by (simp add: BUCKET_SIZE_def)
  with ins have "BucketTable_insert (dfpn_table example_hash) example_table example_key example_value
       = (None, example_table\<lparr>data := [example_bucket[3 := new_entry example_key example_value]]\<rparr>)"
    by (simp add: example_table_def)
  with a o3 p3 show ?thesis by blast
qed

text \<open>C2 as stated fails: the claim has a proved entry kept in preference to an unproved
  entry with fewer iterations. In the full bucket below the last slot is proved with 100
  iterations and the first is unproved with 5; \<^verbatim>\<open>operator<\<close> ranks the proved value below
  the unproved one, and \<^verbatim>\<open>insert\<close> of a new key evicts the proved entry.\<close>

theorem proved_entry_is_evicted:
  "isProved (proofNumbers (val (example_bucket ! 3)))
   \<and> \<not> isProved (proofNumbers (val (example_bucket ! 0)))
   \<and> iterations (val (example_bucket ! 0)) < iterations (val (example_bucket ! 3))
   \<and> StoredNodeInfo_less (val (example_bucket ! 3)) (val (example_bucket ! 0))
   \<and> BucketTable_insert (dfpn_table example_hash) example_table example_key example_value
       = (None, example_table\<lparr>data := [example_bucket[3 := new_entry example_key example_value]]\<rparr>)"
proof -
  have p3: "isProved (proofNumbers (val (example_bucket ! 3)))"
    by (simp add: example_bucket_nth example_entry_def isProved_def isWin_def Value_eq_def)
  have p0: "\<not> isProved (proofNumbers (val (example_bucket ! 0)))"
    by (simp add: example_bucket_nth example_entry_def isProved_def isWin_def isLoss_def
        Value_eq_def is_inf_def)
  have it: "iterations (val (example_bucket ! 0)) < iterations (val (example_bucket ! 3))"
    by (simp add: example_bucket_nth example_entry_def)
  have lt: "StoredNodeInfo_less (val (example_bucket ! 3)) (val (example_bucket ! 0))"
    using p3 by (simp add: StoredNodeInfo_less_def)
  have sc: "insert_scan (dfpn_table example_hash) example_key example_bucket 0 0 = 3"
    unfolding insert_scan_full [OF example_bucket_full]
    using p3 by (simp add: StoredNodeInfo_less_def)
  have ins: "BucketTable_insert (dfpn_table example_hash) example_table example_key example_value
       = (None, example_table\<lparr>data := [example_bucket[3 := new_entry example_key example_value]]\<rparr>)"
    using example_bucket_full
    by (simp add: BucketTable_insert_def example_table_def sc Let_def BUCKET_SIZE_def)
  from p3 p0 it lt ins show ?thesis by blast
qed

subsection \<open>Arithmetic of proof numbers\<close>


lemma is_inf_iff: "is_inf v \<longleftrightarrow> v = Inf"
  by (simp add: is_inf_def Inf_def)









lemma Value_sub_cases:
  "Value_sub a b =
     (if a = Inf then (if b = Inf then Inl UnderflowError else Inr Inf)
      else if a < b then Inl UnderflowError else Inr (a - b))"
  by (simp add: Value_sub_def is_inf_iff)

subsection \<open>The update of a plain node\<close>























subsection \<open>Subtractions in the thresholds of df-pn\<close>




lemma Value_sub_ok:
  assumes "b \<noteq> Inf" and "unat b \<le> unat a"
  shows "\<exists>c. Value_sub a b = Inr c"
  using assms by (auto simp: Value_sub_cases word_less_nat_alt)
























subsection \<open>Merging the computed lands of a couple\<close>

lemma merge_loop_eq:
  "merge_loop G db (map (\<lambda>l. [l]) ls) (n, m, u) =
     (foldl mergeNimbers n (List.map_filter (\<lambda>l. get_position G db [l]) ls),
      m \<or> (\<exists>l\<in>set ls. get_position G db [l] \<noteq> None),
      u @ map (\<lambda>l. [l]) (filter (\<lambda>l. get_position G db [l] = None) ls))"
proof (induction ls arbitrary: n m u)
  case Nil
  then show ?case by (simp add: List.map_filter_simps)
next
  case (Cons l ls)
  then show ?case
    by (cases "get_position G db [l]") (auto simp: List.map_filter_simps)
qed

lemma concat_singletons: "concat (map (\<lambda>l. [l]) ls) = ls"
  by (induction ls) simp_all

lemma mergeComputedLands_acts:
  assumes "isNormalImpartial G" and "position c \<noteq> []"
  shows "mergeComputedLands G db c =
     ((\<exists>l\<in>set (position c). get_position G db [l] \<noteq> None),
      \<lparr>position = filter (\<lambda>l. get_position G db [l] = None) (position c),
       couple_nimber = foldl mergeNimbers (couple_nimber c)
                         (List.map_filter (\<lambda>l. get_position G db [l]) (position c))\<rparr>)"
  using assms
  by (simp add: mergeComputedLands_def Position_empty_def getSubgames_def merge_loop_eq
      Position_of_positions_def concat_singletons)

lemma map_filter_all_None:
  "\<forall>l\<in>set ls. f l = None \<Longrightarrow> List.map_filter f ls = []"
  by (induction ls) (simp_all add: List.map_filter_simps)

lemma toy_db_get:
  "get_position toy_game toy_db ''2'' = Some 2"
  "get_position toy_game toy_db ''3'' = None"
  "get_position toy_game toy_db ''1'' = None"
  "isNormalImpartial toy_game"
  by (simp_all add: get_position_def toy_game_def toy_db_def NimberDatabase_get_def
      NimberDatabase_insert_def NimberDatabase_new_def Let_def)


text \<open>C4, as the code has it: \<^verbatim>\<open>mergeComputedLands\<close> returns false and leaves the couple as
  it is when the game is not normal impartial or the position is empty (the guard is
  \<^verbatim>\<open>position.empty()\<close>, so a single-land position is processed as well). Otherwise every
  land whose one-land position is in the database is dropped and its stored nimber is
  XORed into the couple's nimber, the other lands stay in their order, and the call
  returns true exactly when some land was in the database; with no land in the database
  the couple is unchanged.\<close>

theorem mergeComputedLands_contract:
  "(\<not> isNormalImpartial G \<or> position c = [] \<longrightarrow> mergeComputedLands G db c = (False, c))
   \<and> (isNormalImpartial G \<and> position c \<noteq> [] \<longrightarrow>
        mergeComputedLands G db c =
          ((\<exists>l\<in>set (position c). get_position G db [l] \<noteq> None),
           \<lparr>position = filter (\<lambda>l. get_position G db [l] = None) (position c),
            couple_nimber = foldl mergeNimbers (couple_nimber c)
                              (List.map_filter (\<lambda>l. get_position G db [l]) (position c))\<rparr>))
   \<and> ((\<forall>l\<in>set (position c). get_position G db [l] = None) \<longrightarrow>
        mergeComputedLands G db c = (False, c))"
proof (intro conjI impI)
  show "mergeComputedLands G db c = (False, c)" if "\<not> isNormalImpartial G \<or> position c = []"
    using that by (auto simp: mergeComputedLands_def Position_empty_def)
  show "mergeComputedLands G db c =
          ((\<exists>l\<in>set (position c). get_position G db [l] \<noteq> None),
           \<lparr>position = filter (\<lambda>l. get_position G db [l] = None) (position c),
            couple_nimber = foldl mergeNimbers (couple_nimber c)
                              (List.map_filter (\<lambda>l. get_position G db [l]) (position c))\<rparr>)"
    if "isNormalImpartial G \<and> position c \<noteq> []"
    using that mergeComputedLands_acts by blast
  show "mergeComputedLands G db c = (False, c)"
    if a: "\<forall>l\<in>set (position c). get_position G db [l] = None"
  proof (cases "isNormalImpartial G \<and> position c \<noteq> []")
    case True
    then show ?thesis
      using a mergeComputedLands_acts [of G c db] by (simp add: map_filter_all_None)
  next
    case False
    then show ?thesis by (auto simp: mergeComputedLands_def Position_empty_def)
  qed
qed


theorem mergeComputedLands_contract_witness:
  "isNormalImpartial toy_game
   \<and> mergeComputedLands toy_game toy_db \<lparr>position = ''32'', couple_nimber = 1\<rparr>
       = (True, \<lparr>position = ''3'', couple_nimber = 3\<rparr>)
   \<and> mergeComputedLands toy_game toy_db \<lparr>position = [], couple_nimber = 1\<rparr>
       = (False, \<lparr>position = [], couple_nimber = 1\<rparr>)
   \<and> mergeComputedLands toy_game toy_db \<lparr>position = ''31'', couple_nimber = 1\<rparr>
       = (False, \<lparr>position = ''31'', couple_nimber = 1\<rparr>)"
  using mergeComputedLands_contract [of toy_game "\<lparr>position = ''32'', couple_nimber = 1\<rparr>" toy_db]
    mergeComputedLands_contract [of toy_game "\<lparr>position = [], couple_nimber = 1\<rparr>" toy_db]
    mergeComputedLands_contract [of toy_game "\<lparr>position = ''31'', couple_nimber = 1\<rparr>" toy_db]
  by (simp add: toy_db_get List.map_filter_simps mergeNimbers_def)


text \<open>C4 as stated fails: on the single-land position \<open>2\<close>, which the database has with
  the nimber 2, the call is no no-op: it returns true, empties the position and turns the
  nimber 1 into 3.\<close>

theorem single_land_is_merged:
  "isNormalImpartial toy_game
   \<and> \<not> Position_isMultiLand ''2''
   \<and> mergeComputedLands toy_game toy_db \<lparr>position = ''2'', couple_nimber = 1\<rparr>
       = (True, \<lparr>position = [], couple_nimber = 3\<rparr>)"
  by (simp add: mergeComputedLands_def Position_empty_def getSubgames_def toy_db_get
      Position_of_positions_def Position_isMultiLand_def mergeNimbers_def)


subsection \<open>The children of a couple\<close>

lemma mset_insort_by: "mset (insort_by lt x ys) = add_mset x (mset ys)"
  by (induction ys) simp_all

lemma mset_std_sort: "mset (std_sort lt xs) = mset xs"
  by (induction xs) (simp_all add: std_sort_def mset_insort_by)

lemma set_insort_by: "set (insort_by lt x ys) = insert x (set ys)"
  by (induction ys) auto

lemma sorted_insort_by:
  assumes tr: "\<And>a b c. lt a b \<Longrightarrow> lt b c \<Longrightarrow> lt a c"
    and asym: "\<And>a b. lt a b \<Longrightarrow> \<not> lt b a"
  shows "sorted_wrt (\<lambda>a b. \<not> lt b a) ys \<Longrightarrow> sorted_wrt (\<lambda>a b. \<not> lt b a) (insort_by lt x ys)"
proof (induction ys)
  case Nil
  then show ?case by simp
next
  case (Cons y ys)
  from Cons.prems have ys: "sorted_wrt (\<lambda>a b. \<not> lt b a) ys"
    and y: "\<forall>z\<in>set ys. \<not> lt z y"
    by simp_all
  show ?case
  proof (cases "lt x y")
    case True
    have "\<not> lt z x" if "z \<in> set ys" for z
    proof
      assume "lt z x"
      from this True have "lt z y" by (rule tr)
      with y that show False by simp
    qed
    moreover have "\<not> lt y x" using True by (rule asym)
    ultimately show ?thesis using True ys y by simp
  next
    case False
    have "sorted_wrt (\<lambda>a b. \<not> lt b a) (insort_by lt x ys)" using ys by (rule Cons.IH)
    with False y show ?thesis by (simp add: set_insort_by)
  qed
qed

lemma sorted_std_sort:
  assumes tr: "\<And>a b c. lt a b \<Longrightarrow> lt b c \<Longrightarrow> lt a c"
    and asym: "\<And>a b. lt a b \<Longrightarrow> \<not> lt b a"
  shows "sorted_wrt (\<lambda>a b. \<not> lt b a) (std_sort lt xs)"
proof (induction xs)
  case Nil
  then show ?case by (simp add: std_sort_def)
next
  case (Cons x xs)
  have "sorted_wrt (\<lambda>a b. \<not> lt b a) (insort_by lt x (std_sort lt xs))"
    using tr asym Cons.IH by (rule sorted_insort_by)
  then show ?case by (simp add: std_sort_def)
qed

lemma lex_pair_less:
  fixes a b :: "'a :: linorder" and x y :: "'b :: order"
  shows "((a, x) < (b, y)) \<longleftrightarrow> (if a \<noteq> b then a < b else x < y)"
  by (auto simp: less_prod_def)

lemma DefaultCoupleComparer_key:
  "DefaultCoupleComparer G a b \<longleftrightarrow> couple_key G a < couple_key G b"
proof (cases "isNormalImpartial G")
  case True
  then show ?thesis
    unfolding DefaultCoupleComparer_def couple_key_def Let_def lex_pair_less by simp
next
  case False
  then show ?thesis
    unfolding DefaultCoupleComparer_def couple_key_def Let_def lex_pair_less by simp
qed

lemma DefaultCoupleComparer_asym:
  "DefaultCoupleComparer G a b \<Longrightarrow> \<not> DefaultCoupleComparer G b a"
  by (simp add: DefaultCoupleComparer_key)

lemma DefaultCoupleComparer_trans:
  "DefaultCoupleComparer G a b \<Longrightarrow> DefaultCoupleComparer G b c \<Longrightarrow> DefaultCoupleComparer G a c"
  by (simp add: DefaultCoupleComparer_key)

lemma position_children_loop_step:
  assumes "isNormalImpartial G"
  shows "position_children_loop G (Some db) n (p # ps) out =
     (if isTerminal (position (folded_child G db n p)) then
        (if getOutcome G (folded_child G db n p) = Loss then (True, out)
         else position_children_loop G (Some db) n ps out)
      else position_children_loop G (Some db) n ps (out @ [folded_child G db n p]))"
  using assms by (simp add: folded_child_def Let_def)

lemma getOutcome_Loss_terminal: "getOutcome G x = Loss \<Longrightarrow> isTerminal (position x)"
  by (simp add: getOutcome_def split: if_splits)

lemma position_children_loop_fst:
  assumes "isNormalImpartial G"
  shows "fst (position_children_loop G (Some db) n ps out)
      = (\<exists>p\<in>set ps. getOutcome G (folded_child G db n p) = Loss)"
proof (induction ps arbitrary: out)
  case Nil
  then show ?case by simp
next
  case (Cons p ps)
  show ?case
    unfolding position_children_loop_step [OF assms]
    using getOutcome_Loss_terminal [of G "folded_child G db n p"]
    by (auto simp: Cons.IH)
qed

lemma position_children_loop_snd:
  assumes "isNormalImpartial G"
    and "\<not> (\<exists>p\<in>set ps. getOutcome G (folded_child G db n p) = Loss)"
  shows "position_children_loop G (Some db) n ps out
      = (False, out @ filter (\<lambda>x. \<not> isTerminal (position x)) (map (folded_child G db n) ps))"
  using assms(2)
proof (induction ps arbitrary: out)
  case Nil
  then show ?case by simp
next
  case (Cons p ps)
  then show ?case
    unfolding position_children_loop_step [OF assms(1)] by simp
qed

lemma length_nim_children: "length (nim_children c) = unat (couple_nimber c)"
  by (simp add: nim_children_def)

lemma nim_children_set:
  "x \<in> set (nim_children c) \<longleftrightarrow> position x = position c \<and> couple_nimber x < couple_nimber c"
proof
  assume "x \<in> set (nim_children c)"
  then obtain k where k: "k < unat (couple_nimber c)"
    and x: "x = \<lparr>position = position c, couple_nimber = of_nat k\<rparr>"
    by (auto simp: nim_children_def)
  have "unat (of_nat k :: Nimber) = k"
    using k unsigned_less [of "couple_nimber c", where 'a = nat]
    by (simp add: unat_of_nat take_bit_nat_eq_self)
  with k x show "position x = position c \<and> couple_nimber x < couple_nimber c"
    by (simp add: word_less_nat_alt)
next
  assume a: "position x = position c \<and> couple_nimber x < couple_nimber c"
  then have k: "unat (couple_nimber x) < unat (couple_nimber c)" by (simp add: word_less_nat_alt)
  have "x = \<lparr>position = position c, couple_nimber = of_nat (unat (couple_nimber x))\<rparr>"
    using a by simp
  then have "x = (\<lambda>k. \<lparr>position = position c, couple_nimber = of_nat k\<rparr>) (unat (couple_nimber x))"
    by simp
  moreover have "unat (couple_nimber x) \<in> set [0..<unat (couple_nimber c)]"
    using k by simp
  ultimately show "x \<in> set (nim_children c)"
    unfolding nim_children_def set_map by (rule image_eqI)
qed

lemma toy_children_3: "Position_computeChildren toy_game ''3'' = [[], ''1'', ''2'']"
  by code_simp

lemma toy_computeChildren_3:
  "computeChildren toy_game (Some toy_db) \<lparr>position = ''3'', couple_nimber = 1\<rparr>
     = (Unknown, [\<lparr>position = ''3'', couple_nimber = 0\<rparr>, \<lparr>position = ''1'', couple_nimber = 1\<rparr>])"
  by code_simp


lemma folded_child_eq:
  assumes "isNormalImpartial G"
  shows "folded_child G db n p =
     \<lparr>position = filter (\<lambda>l. get_position G db [l] = None) p,
      couple_nimber = foldl mergeNimbers n (List.map_filter (\<lambda>l. get_position G db [l]) p)\<rparr>"
proof (cases "p = []")
  case True
  then show ?thesis
    by (simp add: folded_child_def mergeComputedLands_def Position_empty_def
        List.map_filter_simps)
next
  case False
  with assms show ?thesis
    using mergeComputedLands_acts [of G "\<lparr>position = p, couple_nimber = n\<rparr>" db]
    by (simp add: folded_child_def)
qed

lemma getOutcome_Loss_iff:
  assumes "isNormalImpartial G"
  shows "getOutcome G x = Loss \<longleftrightarrow> position x = [] \<and> couple_nimber x = 0"
  using assms by (simp add: getOutcome_def isTerminal_def Nimber_isWin_def)

lemma computeChildren_cases:
  assumes "isNormalImpartial G" and "\<not> isTerminal (position c)"
    and "folded = map (folded_child G db (couple_nimber c)) (Position_computeChildren G (position c))"
    and "survivors = filter (\<lambda>x. \<not> isTerminal (position x)) folded"
  shows "((\<exists>x\<in>set folded. isTerminal (position x) \<and> getOutcome G x = Loss) \<longrightarrow>
           fst (computeChildren G (Some db) c) = Win)
     \<and> (\<not> (\<exists>x\<in>set folded. isTerminal (position x) \<and> getOutcome G x = Loss)
          \<and> nim_children c @ survivors = [] \<longrightarrow>
           computeChildren G (Some db) c = (Loss, []))
     \<and> (\<not> (\<exists>x\<in>set folded. isTerminal (position x) \<and> getOutcome G x = Loss)
          \<and> nim_children c @ survivors \<noteq> [] \<longrightarrow>
           fst (computeChildren G (Some db) c) = Unknown
           \<and> mset (snd (computeChildren G (Some db) c)) = mset (nim_children c @ survivors)
           \<and> sorted_wrt (\<lambda>a b. \<not> DefaultCoupleComparer G b a) (snd (computeChildren G (Some db) c)))"
proof -
  let ?loop = "position_children_loop G (Some db) (couple_nimber c)
                 (Position_computeChildren G (position c)) (nim_children c)"
  have u: "getOutcome G c = Unknown" using assms(2) by (simp add: getOutcome_def)
  have ex: "(\<exists>x\<in>set folded. isTerminal (position x) \<and> getOutcome G x = Loss)
      = (\<exists>p\<in>set (Position_computeChildren G (position c)).
            getOutcome G (folded_child G db (couple_nimber c) p) = Loss)"
    using getOutcome_Loss_terminal by (auto simp: assms(3))
  have f: "fst ?loop = (\<exists>x\<in>set folded. isTerminal (position x) \<and> getOutcome G x = Loss)"
    unfolding ex by (rule position_children_loop_fst [OF assms(1)])
  have 1: "fst (computeChildren G (Some db) c) = Win"
    if "\<exists>x\<in>set folded. isTerminal (position x) \<and> getOutcome G x = Loss"
  proof -
    from that f have "fst ?loop" by simp
    then obtain cs where "?loop = (True, cs)" by (cases ?loop) auto
    then show ?thesis by (simp add: computeChildren_def u)
  qed
  have s: "?loop = (False, nim_children c @ survivors)"
    if "\<not> (\<exists>x\<in>set folded. isTerminal (position x) \<and> getOutcome G x = Loss)"
  proof -
    from that have "\<not> (\<exists>p\<in>set (Position_computeChildren G (position c)).
            getOutcome G (folded_child G db (couple_nimber c) p) = Loss)"
      unfolding ex .
    from position_children_loop_snd [OF assms(1) this, of "nim_children c"]
    show ?thesis unfolding assms(4) assms(3) .
  qed
  have 2: "computeChildren G (Some db) c = (Loss, [])"
    if "\<not> (\<exists>x\<in>set folded. isTerminal (position x) \<and> getOutcome G x = Loss)
          \<and> nim_children c @ survivors = []"
    using that s by (simp add: computeChildren_def u)
  have 3: "fst (computeChildren G (Some db) c) = Unknown
           \<and> mset (snd (computeChildren G (Some db) c)) = mset (nim_children c @ survivors)
           \<and> sorted_wrt (\<lambda>a b. \<not> DefaultCoupleComparer G b a) (snd (computeChildren G (Some db) c))"
    if "\<not> (\<exists>x\<in>set folded. isTerminal (position x) \<and> getOutcome G x = Loss)
          \<and> nim_children c @ survivors \<noteq> []"
  proof -
    from that s have "computeChildren G (Some db) c
        = (Unknown, std_sort (DefaultCoupleComparer G) (nim_children c @ survivors))"
      by (simp add: computeChildren_def u)
    moreover have "sorted_wrt (\<lambda>a b. \<not> DefaultCoupleComparer G b a)
        (std_sort (DefaultCoupleComparer G) (nim_children c @ survivors))"
      by (rule sorted_std_sort) (erule (1) DefaultCoupleComparer_trans, erule DefaultCoupleComparer_asym)
    ultimately show ?thesis by (simp add: mset_std_sort)
  qed
  from 1 2 3 show ?thesis by blast
qed


text \<open>C5: for a normal impartial game, a couple \<open>(p, n)\<close> with a position that is not
  terminal (it has a land) and a database, let the folded position children be the
  children of \<open>p\<close>, each with the lands that the database has dropped and with \<open>n\<close> XORed
  with the nimbers stored for them. \<^verbatim>\<open>computeChildren(db, out)\<close> returns \<^verbatim>\<open>Win\<close> if some
  folded position child is terminal with the outcome \<^verbatim>\<open>Loss\<close>, that is, has no land left
  and the nimber 0; otherwise it returns \<^verbatim>\<open>Loss\<close> with no children if neither a Nim child
  nor a folded position child with a land is left; and otherwise it returns \<^verbatim>\<open>Unknown\<close>
  with \<open>out\<close> a permutation of the Nim children followed by the surviving folded position
  children, sorted by \<^verbatim>\<open>DefaultCoupleComparer\<close>. The Nim children are the couples \<open>(p, k)\<close>
  with \<open>k < n\<close>, one for each \<open>k\<close>.\<close>

theorem computeChildren_contract:
  assumes "isNormalImpartial G" and "position c \<noteq> []"
    and "folded =
           map (\<lambda>p. \<lparr>position = filter (\<lambda>l. get_position G db [l] = None) p,
                     couple_nimber =
                       foldl mergeNimbers (couple_nimber c)
                         (List.map_filter (\<lambda>l. get_position G db [l]) p)\<rparr>)
             (Position_computeChildren G (position c))"
    and "survivors = filter (\<lambda>x. position x \<noteq> []) folded"
  shows "((\<exists>x\<in>set folded. position x = [] \<and> couple_nimber x = 0) \<longrightarrow>
           fst (computeChildren G (Some db) c) = Win)
     \<and> (\<not> (\<exists>x\<in>set folded. position x = [] \<and> couple_nimber x = 0)
          \<and> nim_children c @ survivors = [] \<longrightarrow>
           computeChildren G (Some db) c = (Loss, []))
     \<and> (\<not> (\<exists>x\<in>set folded. position x = [] \<and> couple_nimber x = 0)
          \<and> nim_children c @ survivors \<noteq> [] \<longrightarrow>
           fst (computeChildren G (Some db) c) = Unknown
           \<and> mset (snd (computeChildren G (Some db) c)) = mset (nim_children c @ survivors)
           \<and> sorted_wrt (\<lambda>a b. \<not> DefaultCoupleComparer G b a) (snd (computeChildren G (Some db) c)))
     \<and> (\<forall>x. x \<in> set (nim_children c) \<longleftrightarrow>
              position x = position c \<and> couple_nimber x < couple_nimber c)
     \<and> length (nim_children c) = unat (couple_nimber c)"
proof -
  have nt: "\<not> isTerminal (position c)" using assms(2) by (simp add: isTerminal_def)
  have fo: "folded = map (folded_child G db (couple_nimber c))
                       (Position_computeChildren G (position c))"
    unfolding assms(3) using folded_child_eq [OF assms(1)] by simp
  have su: "survivors = filter (\<lambda>x. \<not> isTerminal (position x)) folded"
    unfolding assms(4) by (simp add: isTerminal_def)
  have ex: "(\<exists>x\<in>set folded. isTerminal (position x) \<and> getOutcome G x = Loss)
      = (\<exists>x\<in>set folded. position x = [] \<and> couple_nimber x = 0)"
    using getOutcome_Loss_iff [OF assms(1)] by (auto simp: isTerminal_def)
  from computeChildren_cases [OF assms(1) nt fo su, unfolded ex]
    nim_children_set length_nim_children
  show ?thesis by blast
qed


theorem computeChildren_contract_witness:
  "isNormalImpartial toy_game
   \<and> fst (computeChildren toy_game (Some toy_db) \<lparr>position = ''3'', couple_nimber = 1\<rparr>) = Unknown
   \<and> mset (snd (computeChildren toy_game (Some toy_db) \<lparr>position = ''3'', couple_nimber = 1\<rparr>))
       = mset (nim_children \<lparr>position = ''3'', couple_nimber = 1\<rparr>
               @ [\<lparr>position = ''1'', couple_nimber = 1\<rparr>])
   \<and> computeChildren toy_game (Some toy_db) \<lparr>position = ''3'', couple_nimber = 1\<rparr>
       = (Unknown, [\<lparr>position = ''3'', couple_nimber = 0\<rparr>, \<lparr>position = ''1'', couple_nimber = 1\<rparr>])
   \<and> fst (computeChildren toy_game (Some toy_db) \<lparr>position = ''3'', couple_nimber = 2\<rparr>) = Win
   \<and> computeChildren toy_game (Some toy_db2) \<lparr>position = ''11'', couple_nimber = 0\<rparr> = (Loss, [])"
proof -
  let ?fold = "\<lambda>db n p. \<lparr>position = filter (\<lambda>l. get_position toy_game db [l] = None) p,
                     couple_nimber =
                       foldl mergeNimbers n
                         (List.map_filter (\<lambda>l. get_position toy_game db [l]) p)\<rparr>"
  have a: "isNormalImpartial toy_game" by (rule toy_db_get(4))
  let ?c = "\<lparr>position = ''3'', couple_nimber = 1 :: Nimber\<rparr>"
  let ?folded = "[\<lparr>position = [], couple_nimber = 1 :: Nimber\<rparr>, \<lparr>position = ''1'', couple_nimber = 1\<rparr>,
        \<lparr>position = [], couple_nimber = 3\<rparr>]"
  have b: "position ?c \<noteq> []" by simp
  have c: "?folded = map (?fold toy_db (couple_nimber ?c))
                       (Position_computeChildren toy_game (position ?c))"
    by code_simp
  have d: "[\<lparr>position = ''1'', couple_nimber = 1 :: Nimber\<rparr>]
      = filter (\<lambda>x. position x \<noteq> []) ?folded"
    by simp
  have e: "\<not> (\<exists>x\<in>set ?folded. position x = [] \<and> couple_nimber x = 0)"
    by simp
  from computeChildren_contract [OF a b c d] e
  have u: "fst (computeChildren toy_game (Some toy_db) ?c) = Unknown
     \<and> mset (snd (computeChildren toy_game (Some toy_db) ?c))
         = mset (nim_children ?c @ [\<lparr>position = ''1'', couple_nimber = 1\<rparr>])"
    by simp
  let ?c2 = "\<lparr>position = ''3'', couple_nimber = 2 :: Nimber\<rparr>"
  let ?folded2 = "[\<lparr>position = [], couple_nimber = 2 :: Nimber\<rparr>, \<lparr>position = ''1'', couple_nimber = 2\<rparr>,
        \<lparr>position = [], couple_nimber = 0\<rparr>]"
  have b2: "position ?c2 \<noteq> []" by simp
  have c2: "?folded2 = map (?fold toy_db (couple_nimber ?c2))
                       (Position_computeChildren toy_game (position ?c2))"
    by code_simp
  have d2: "[\<lparr>position = ''1'', couple_nimber = 2 :: Nimber\<rparr>]
      = filter (\<lambda>x. position x \<noteq> []) ?folded2"
    by simp
  have e2: "\<exists>x\<in>set ?folded2. position x = [] \<and> couple_nimber x = 0"
    by simp
  from computeChildren_contract [OF a b2 c2 d2] e2
  have w: "fst (computeChildren toy_game (Some toy_db) ?c2) = Win"
    by blast
  let ?c3 = "\<lparr>position = ''11'', couple_nimber = 0 :: Nimber\<rparr>"
  let ?folded3 = "[\<lparr>position = [], couple_nimber = 1 :: Nimber\<rparr>, \<lparr>position = [], couple_nimber = 1\<rparr>]"
  have b3: "position ?c3 \<noteq> []" by simp
  have c3: "?folded3 = map (?fold toy_db2 (couple_nimber ?c3))
                       (Position_computeChildren toy_game (position ?c3))"
    by code_simp
  have d3: "[] = filter (\<lambda>x. position x \<noteq> []) ?folded3"
    by simp
  have e3: "\<not> (\<exists>x\<in>set ?folded3. position x = [] \<and> couple_nimber x = 0)"
    "nim_children ?c3 @ [] = []"
    by (simp_all add: nim_children_def)
  from computeChildren_contract [OF a b3 c3 d3] e3
  have l: "computeChildren toy_game (Some toy_db2) ?c3 = (Loss, [])"
    by blast
  from a u w l toy_computeChildren_3 show ?thesis by blast
qed


subsection \<open>Storing and loading the nimber database\<close>

lemma digit_char_props:
  assumes "d < 10"
  shows "isdigit (digit_char d)" and "of_char (digit_char d) - 48 = d"
    and "\<not> isspace (digit_char d)" and "digit_char d \<noteq> CHR ''+''" and "digit_char d \<noteq> CHR ''-''"
    and "digit_char d \<noteq> CHR '' ''" and "digit_char d \<noteq> newline"
proof -
  have v: "(of_char (digit_char d) :: nat) = 48 + d"
    using assms by (simp add: digit_char_def)
  show "isdigit (digit_char d)"
    using assms v by (simp add: isdigit_def less_eq_char_def)
  show "of_char (digit_char d) - 48 = d" using v by simp
  show "\<not> isspace (digit_char d)"
    using v by (auto simp: isspace_def less_eq_char_def)
  show "digit_char d \<noteq> CHR ''+''" "digit_char d \<noteq> CHR ''-''" "digit_char d \<noteq> CHR '' ''"
    "digit_char d \<noteq> newline"
    using v by (auto simp: newline_def)
qed

lemma decimal_digits: "list_all isdigit (decimal n) \<and> decimal n \<noteq> []"
proof (induction n rule: decimal.induct)
  case (1 n)
  show ?case
  proof (cases "n < 10")
    case True
    then show ?thesis by (subst (1 2) decimal.simps) (simp add: digit_char_props)
  next
    case False
    with 1 show ?thesis by (subst (1 2) decimal.simps) (simp add: digit_char_props)
  qed
qed

lemma digits_value_snoc:
  "digits_value (ds @ [c]) = 10 * digits_value ds + (of_char c - 48)"
  by (simp add: digits_value_def)

lemma digits_value_decimal: "digits_value (decimal n) = n"
proof (induction n rule: decimal.induct)
  case (1 n)
  show ?case
  proof (cases "n < 10")
    case True
    then show ?thesis by (subst decimal.simps) (simp add: digits_value_def digit_char_props)
  next
    case False
    with 1 show ?thesis
      by (subst decimal.simps) (simp add: digits_value_snoc digit_char_props)
  qed
qed

lemma isdigit_props:
  assumes "isdigit c"
  shows "\<not> isspace c" "c \<noteq> CHR ''+''" "c \<noteq> CHR ''-''" "c \<noteq> CHR '' ''" "c \<noteq> newline"
  using assms by (auto simp: isdigit_def isspace_def less_eq_char_def newline_def)

lemma stoul_digits:
  assumes "isdigit c" and "list_all isdigit r" and "digits_value (c # r) < 2 ^ 64"
  shows "stoul (c # r) = Some (digits_value (c # r))"
proof -
  have tw: "takeWhile isdigit (c # r) = c # r"
    using assms(1,2) by (simp add: list_all_iff)
  have dw: "dropWhile isspace (c # r) = c # r"
    using isdigit_props(1) [OF assms(1)] by simp
  show ?thesis
    unfolding stoul_def dw Let_def list.case
    using isdigit_props(2,3) [OF assms(1)] assms(3)
    by (simp add: tw del: takeWhile.simps)
qed

lemma stoul_decimal:
  assumes "n < 2 ^ 64"
  shows "stoul (decimal n) = Some n"
proof -
  from decimal_digits [of n] obtain c r where cr: "decimal n = c # r" and c: "isdigit c"
    and r: "list_all isdigit r"
    by (cases "decimal n") auto
  from stoul_digits [OF c r] assms digits_value_decimal [of n] show ?thesis
    by (simp add: cr)
qed

lemma find_first_of_append:
  "c \<notin> set k \<Longrightarrow> find_first_of (k @ c # r) c = Some (length k)"
  by (induction k) (auto simp: find_first_of_def)

lemma unat_Nimber_less: "unat (v :: Nimber) < 2 ^ 64"
proof -
  have "unat v < 2 ^ 8" using unsigned_less [of v, where 'a = nat] by simp
  then show ?thesis by simp
qed

lemma parseLine_store_line:
  assumes "isNormalImpartial G" and "CHR '' '' \<notin> set k"
  shows "parseLine G (store_line G (k, v)) = Some (k, v)"
  using assms stoul_decimal [OF unat_Nimber_less [of v]]
  by (simp add: parseLine_def store_line_def find_first_of_append Let_def)

lemma getlines_line:
  "newline \<notin> set l \<Longrightarrow> getlines (l @ newline # rest) cur = (cur @ l) # getlines rest []"
  by (induction l arbitrary: cur) auto

lemma getlines_concat:
  "\<forall>l\<in>set ls. newline \<notin> set l \<Longrightarrow>
   getlines (concat (map (\<lambda>l. l @ [newline]) ls)) [] = ls"
proof (induction ls)
  case Nil
  then show ?case by simp
next
  case (Cons l ls)
  then show ?case using getlines_line [of l "concat (map (\<lambda>l. l @ [newline]) ls)" "[]"]
    by simp
qed

lemma decimal_no_newline: "newline \<notin> set (decimal n)" "CHR '' '' \<notin> set (decimal n)"
  using decimal_digits [of n] isdigit_props(4,5)
  by (auto simp: list_all_iff)

lemma store_line_props:
  assumes "isNormalImpartial G"
  shows "store_line G e \<noteq> header_impartial" and "store_line G e \<noteq> header_misere"
    and "store_line G e \<noteq> []"
    and "newline \<notin> set (fst e) \<Longrightarrow> newline \<notin> set (store_line G e)"
proof -
  have sp: "CHR '' '' \<in> set (store_line G e)"
    using assms by (simp add: store_line_def)
  have "CHR '' '' \<notin> set header_impartial" "CHR '' '' \<notin> set header_misere"
    by (simp_all add: header_impartial_def header_misere_def)
  with sp show "store_line G e \<noteq> header_impartial" "store_line G e \<noteq> header_misere"
    by auto
  from sp show "store_line G e \<noteq> []" by auto
  show "newline \<notin> set (store_line G e)" if "newline \<notin> set (fst e)"
    using that assms decimal_no_newline(1) by (simp add: store_line_def newline_def)
qed

lemma map_insert_set:
  assumes "\<forall>v'. (k, v') \<in> set d \<longrightarrow> v' = v"
  shows "set (fst (map_insert d k v)) = insert (k, v) (set d)"
proof (cases "map_of d k")
  case None
  then show ?thesis by (simp add: map_insert_def)
next
  case (Some v')
  then have "(k, v') \<in> set d" by (rule map_of_SomeD)
  with assms have "(k, v) \<in> set d" by auto
  with Some show ?thesis by (auto simp: map_insert_def)
qed

lemma load_lines_set:
  assumes "isNormalImpartial G"
    and "\<forall>e\<in>P. CHR '' '' \<notin> set (fst e)"
    and "\<forall>k v v'. (k, v) \<in> P \<and> (k, v') \<in> P \<longrightarrow> v = v'"
  shows "\<forall>l\<in>set ls. \<exists>e\<in>P. l = store_line G e \<Longrightarrow> set d \<subseteq> P \<Longrightarrow>
     set (fst (load_lines G ls (d, i))) = set d \<union> {e \<in> P. store_line G e \<in> set ls}"
proof (induction ls arbitrary: d i)
  case Nil
  then show ?case by simp
next
  case (Cons l ls)
  from Cons.prems(1) obtain e where eP: "e \<in> P" and l: "l = store_line G e" by auto
  obtain k v where e: "e = (k, v)" by (cases e)
  have par: "parseLine G (store_line G e') = Some e'" if "e' \<in> P" for e'
    using parseLine_store_line [OF assms(1), of "fst e'" "snd e'"] assms(2) that by simp
  have inj: "{e' \<in> P. store_line G e' = l} = {e}"
  proof -
    have "e' = e" if "e' \<in> P" "store_line G e' = l" for e'
    proof -
      have "Some e' = parseLine G (store_line G e')" using par [OF that(1)] by simp
      also have "\<dots> = parseLine G (store_line G e)" unfolding that(2) l ..
      also have "\<dots> = Some e" by (rule par [OF eP])
      finally show ?thesis by simp
    qed
    moreover have "store_line G e = l" by (simp only: l)
    ultimately show ?thesis using eP by blast
  qed
  have "\<forall>v'. (k, v') \<in> set d \<longrightarrow> v' = v"
    using Cons.prems(2) eP e assms(3) by blast
  then have s: "set (fst (map_insert d k v)) = insert e (set d)"
    unfolding e by (rule map_insert_set)
  then have sub: "set (fst (map_insert d k v)) \<subseteq> P"
    using Cons.prems(2) eP by simp
  have ls: "\<forall>l\<in>set ls. \<exists>e\<in>P. l = store_line G e" using Cons.prems(1) by simp
  have split: "{e' \<in> P. store_line G e' \<in> set (l # ls)}
      = {e' \<in> P. store_line G e' = l} \<union> {e' \<in> P. store_line G e' \<in> set ls}"
    by auto
  have nh: "\<not> (l = header_impartial \<or> l = header_misere \<or> l = [])"
    unfolding l using store_line_props(1-3) [OF assms(1), of e] by simp
  have pl: "parseLine G l = Some (k, v)"
    unfolding l using par [OF eP] e by simp
  have ih: "set (fst (load_lines G ls (fst (map_insert d k v), j)))
      = insert e (set d) \<union> {e' \<in> P. store_line G e' \<in> set ls}" for j
    using Cons.IH [OF ls sub, of j] s by simp
  have "load_lines G (l # ls) (d, i)
      = (if snd (map_insert d k v)
         then load_lines G ls (fst (map_insert d k v), i + 1)
         else load_lines G ls (fst (map_insert d k v), i))"
    using nh pl by (simp only: load_lines.simps if_False option.case prod.case)
  then have step: "set (fst (load_lines G (l # ls) (d, i)))
      = insert e (set d) \<union> {e' \<in> P. store_line G e' \<in> set ls}"
    using ih [of "i + 1"] ih [of i]
    by (cases "snd (map_insert d k v)") (simp_all only: if_True if_False)
  show ?case unfolding step split inj by blast
qed


lemma toy_db2_data: "db_data toy_db2 = [(''2'', 2), (''1'', 1)]"
  by (simp add: toy_db2_def toy_db_def NimberDatabase_insert_def NimberDatabase_new_def Let_def)

lemma digit_char_3: "digit_char 3 = CHR ''3''"
  by code_simp

lemma decimal_3: "decimal 3 = ''3''"
  by (subst decimal.simps) (simp add: digit_char_3)

lemma spaced_db_data: "db_data spaced_db = [(''a 1'', 3)]"
  by (simp add: spaced_db_def NimberDatabase_insert_def NimberDatabase_new_def Let_def)

lemma spaced_store:
  "NimberDatabase_store toy_game spaced_db True
     = header_impartial @ newline # ''a 1 3'' @ [newline]"
  by (simp add: NimberDatabase_store_def spaced_db_data store_line_def toy_game_def decimal_3)

lemma spaced_getlines:
  "getlines (NimberDatabase_store toy_game spaced_db True) [] = [header_impartial, ''a 1 3'']"
proof -
  have hn: "newline \<notin> set header_impartial"
    by (simp add: header_impartial_def newline_def)
  have l: "newline \<notin> set ''a 1 3''" by (simp add: newline_def)
  show ?thesis
    unfolding spaced_store getlines_line [OF hn]
    using getlines_line [OF l, of "[]" "[]"] by simp
qed

lemma stoul_1_3: "stoul ''1 3'' = Some 1"
  by (simp add: stoul_def isspace_def isdigit_def less_eq_char_def digits_value_def Let_def)

lemma spaced_parse: "parseLine toy_game ''a 1 3'' = Some (''a'', 1)"
  by (simp add: parseLine_def find_first_of_def toy_game_def stoul_1_3 Let_def)


text \<open>C8, as the code has it: for the normal impartial game and a database whose position
  strings hold neither a space nor a newline, \<^verbatim>\<open>store\<close> (sorted or not) followed by \<^verbatim>\<open>load\<close>
  into an empty database gives the same set of (position, nimber) pairs.\<close>

theorem store_load_roundtrip:
  assumes "isNormalImpartial G"
    and "distinct (map fst (db_data db))"
    and "\<forall>e\<in>set (db_data db). CHR '' '' \<notin> set (fst e) \<and> newline \<notin> set (fst e)"
  shows "set (db_data (fst (NimberDatabase_load G (NimberDatabase_new tn ts)
                              (NimberDatabase_store G db srt))))
         = set (db_data db)"
proof -
  let ?es = "db_data db"
  define out where "out = (if srt then sort (map (store_line G) ?es) else map (store_line G) ?es)"
  have so: "set out = store_line G ` set ?es" by (simp add: out_def)
  have nl: "\<forall>l\<in>set out. newline \<notin> set l"
    unfolding so using assms(3) store_line_props(4) [OF assms(1)] by auto
  have hn: "newline \<notin> set header_impartial"
    by (simp add: header_impartial_def newline_def)
  have st: "NimberDatabase_store G db srt
      = header_impartial @ newline # concat (map (\<lambda>l. l @ [newline]) out)"
    using assms(1) by (simp add: NimberDatabase_store_def Let_def out_def)
  have gl: "getlines (NimberDatabase_store G db srt) [] = header_impartial # out"
    unfolding st getlines_line [OF hn] getlines_concat [OF nl] by simp
  have func: "\<forall>k v v'. (k, v) \<in> set ?es \<and> (k, v') \<in> set ?es \<longrightarrow> v = v'"
    using eq_key_imp_eq_value [OF assms(2)] by blast
  have sp: "\<forall>e\<in>set ?es. CHR '' '' \<notin> set (fst e)" using assms(3) by simp
  have ex: "\<forall>l\<in>set out. \<exists>e\<in>set ?es. l = store_line G e"
    unfolding so by auto
  have "set (fst (load_lines G out ([], 0)))
      = set [] \<union> {e \<in> set ?es. store_line G e \<in> set out}"
    using assms(1) sp func ex by (rule load_lines_set) simp
  also have "\<dots> = set ?es" unfolding so by auto
  finally have r: "set (fst (load_lines G out ([], 0))) = set ?es" .
  have "load_lines G (header_impartial # out) ([], 0) = load_lines G out ([], 0)"
    by simp
  then have "db_data (fst (NimberDatabase_load G (NimberDatabase_new tn ts)
                              (NimberDatabase_store G db srt)))
      = fst (load_lines G out ([], 0))"
    by (simp add: NimberDatabase_load_def gl NimberDatabase_new_def split: prod.splits)
  with r show ?thesis by simp
qed


theorem store_load_roundtrip_witness:
  "isNormalImpartial toy_game \<and> distinct (map fst (db_data toy_db2))
   \<and> set (db_data (fst (NimberDatabase_load toy_game (NimberDatabase_new False False)
                          (NimberDatabase_store toy_game toy_db2 True))))
       = {(''2'', 2), (''1'', 1)}"
proof -
  have a: "isNormalImpartial toy_game" by (simp add: toy_game_def)
  have b: "distinct (map fst (db_data toy_db2))" by (simp add: toy_db2_data)
  have c: "\<forall>e\<in>set (db_data toy_db2). CHR '' '' \<notin> set (fst e) \<and> newline \<notin> set (fst e)"
    by (simp add: toy_db2_data newline_def)
  from store_load_roundtrip [OF a b c, of False False True] a b show ?thesis
    by (simp add: toy_db2_data)
qed


text \<open>C8 as stated fails for a key that holds a space: \<^verbatim>\<open>parseLine\<close> cuts the line at its
  first space, so the entry \<open>(a 1, 3)\<close> is written as the line \<open>a 1 3\<close> and loaded as
  \<open>(a, 1)\<close>.\<close>

theorem key_with_space_is_not_restored:
  "db_data spaced_db = [(''a 1'', 3)]
   \<and> db_data (fst (NimberDatabase_load toy_game (NimberDatabase_new False False)
                     (NimberDatabase_store toy_game spaced_db True)))
       = [(''a'', 1)]"
proof -
  have nh: "''a 1 3'' \<noteq> header_impartial" "''a 1 3'' \<noteq> header_misere"
    by (simp_all add: header_impartial_def header_misere_def)
  have "load_lines toy_game [header_impartial, ''a 1 3''] ([], 0) = ([(''a'', 1)], 1)"
    using nh by (simp add: spaced_parse map_insert_def)
  then show ?thesis
    by (simp add: NimberDatabase_load_def spaced_getlines NimberDatabase_new_def spaced_db_data)
qed


subsection \<open>Collapse of a node\<close>

lemma setToWin_simps:
  "getProofNumbers (setToWin n) = \<lparr>pn_proof = 0, pn_disproof = Inf\<rparr>"
  "children (setToWin n) = []"
  "\<not> isLocked (setToWin n)"
  "PnsNode_isProved (setToWin n)"
  "toOutcome (getProofNumbers (setToWin n)) = Win"
  by (simp_all add: setToWin_def close_def Let_def getProofNumbers_def isLocked_def
      PnsNode_isProved_def isWin_def Value_eq_def toOutcome_def)

lemma setToLoss_simps:
  "getProofNumbers (setToLoss n) = \<lparr>pn_proof = Inf, pn_disproof = 0\<rparr>"
  "children (setToLoss n) = []"
  "\<not> isLocked (setToLoss n)"
  "PnsNode_isProved (setToLoss n)"
  "toOutcome (getProofNumbers (setToLoss n)) = Loss"
  by (simp_all add: setToLoss_def close_def Let_def getProofNumbers_def isLocked_def
      PnsNode_isProved_def isLoss_def Value_eq_def toOutcome_def Inf_def is_inf_def)

lemma proved_calls:
  assumes "PnsNode_isProved m"
  shows "update factory G db m = Some (Inr m)"
    and "updateChildren factory G db m = Some m"
    and "updateInfo m = Inr m"
  using assms by (simp_all add: update_def updateChildren_def updateInfo_def)

lemma proved_run_calls:
  "PnsNode_isProved m \<Longrightarrow> run_calls factory G db cs m = Some (Inr m)"
proof (induction cs)
  case Nil
  then show ?case by simp
next
  case (Cons c cs)
  then show ?case by (cases c) (simp_all add: proved_calls)
qed


text \<open>C7: after \<^verbatim>\<open>setToWin\<close> the node has the proof numbers \<open>(0, INF)\<close>, no children and is
  unlocked, after \<^verbatim>\<open>setToLoss\<close> it has \<open>(INF, 0)\<close>, no children and is unlocked; and
  \<^verbatim>\<open>update\<close>, \<^verbatim>\<open>updateChildren\<close> and \<^verbatim>\<open>updateInfo\<close> return the collapsed node as it
  is, whatever the factory and the nimber database, and so does every sequence of such
  calls.\<close>

theorem collapse_is_absorbing:
  "getProofNumbers (setToWin n) = \<lparr>pn_proof = 0, pn_disproof = Inf\<rparr>
   \<and> children (setToWin n) = [] \<and> \<not> isLocked (setToWin n)
   \<and> getProofNumbers (setToLoss n) = \<lparr>pn_proof = Inf, pn_disproof = 0\<rparr>
   \<and> children (setToLoss n) = [] \<and> \<not> isLocked (setToLoss n)
   \<and> update factory G db (setToWin n) = Some (Inr (setToWin n))
   \<and> updateChildren factory G db (setToWin n) = Some (setToWin n)
   \<and> updateInfo (setToWin n) = Inr (setToWin n)
   \<and> update factory G db (setToLoss n) = Some (Inr (setToLoss n))
   \<and> updateChildren factory G db (setToLoss n) = Some (setToLoss n)
   \<and> updateInfo (setToLoss n) = Inr (setToLoss n)
   \<and> run_calls factory G db cs (setToWin n) = Some (Inr (setToWin n))
   \<and> run_calls factory G db cs (setToLoss n) = Some (Inr (setToLoss n))"
  by (simp add: setToWin_simps setToLoss_simps proved_calls proved_run_calls)

theorem collapse_is_absorbing_witness:
  "toOutcome (getProofNumbers (setToWin toy_node)) = Win
   \<and> children (setToWin toy_node) = []
   \<and> toOutcome (getProofNumbers (setToLoss toy_node)) = Loss
   \<and> run_calls toy_factory toy_game toy_db [Update, UpdateInfo, UpdateChildren] (setToWin toy_node)
       = Some (Inr (setToWin toy_node))
   \<and> update toy_factory toy_game toy_db (setToLoss toy_node) = Some (Inr (setToLoss toy_node))"
  using collapse_is_absorbing [of toy_node toy_factory toy_game toy_db
      "[Update, UpdateInfo, UpdateChildren]"]
  by (simp add: toOutcome_def Value_eq_def Inf_def is_inf_def)

text \<open>C10: a \<^verbatim>\<open>BucketTable\<close> constructed with a capacity below \<^verbatim>\<open>BUCKET_SIZE\<close> has no
  bucket, and every operation on it is a silent no-op: \<^verbatim>\<open>insert\<close> returns none and
  stores nothing, \<^verbatim>\<open>find\<close> returns none for every key, \<^verbatim>\<open>mark\<close> and \<^verbatim>\<open>unmark\<close> leave
  the table as it is, and \<^verbatim>\<open>size()\<close> is 0 before and after.\<close>

theorem small_capacity_table_is_inert:
  assumes "capacity < BUCKET_SIZE" and t_def: "t = BucketTable_new P capacity ts"
  shows "data t = []
       \<and> BucketTable_size t = 0
       \<and> BucketTable_insert P t k v = (None, t)
       \<and> BucketTable_find P t k = None
       \<and> BucketTable_mark P t k tid = t
       \<and> BucketTable_unmark P t k tid = t
       \<and> BucketTable_size (snd (BucketTable_insert P t k v)) = 0"
proof -
  have d: "data t = []"
    using assms by (simp add: BucketTable_new_def)
  have s: "BucketTable_size t = 0"
    by (simp add: t_def BucketTable_new_def BucketTable_size_def)
  show ?thesis
    using d s
    by (simp add: BucketTable_insert_def BucketTable_find_def BucketTable_mark_def
        BucketTable_unmark_def)
qed

theorem small_capacity_table_is_inert_witness:
  "(3::nat) < BUCKET_SIZE
   \<and> BucketTable_insert (dfpn_table (\<lambda>c. 7)) (BucketTable_new (dfpn_table (\<lambda>c. 7)) 3 False)
        \<lparr>compactPosition = ''0.}'', nimber = 1\<rparr>
        \<lparr>proofNumbers = \<lparr>pn_proof = 2, pn_disproof = 3\<rparr>, iterations = 5\<rparr>
       = (None, BucketTable_new (dfpn_table (\<lambda>c. 7)) 3 False)
   \<and> BucketTable_find (dfpn_table (\<lambda>c. 7)) (BucketTable_new (dfpn_table (\<lambda>c. 7)) 3 False)
        \<lparr>compactPosition = ''0.}'', nimber = 1\<rparr> = None"
proof -
  have h: "(3::nat) < BUCKET_SIZE" by (simp add: BUCKET_SIZE_def)
  show ?thesis
    using h small_capacity_table_is_inert [OF h refl, of "dfpn_table (\<lambda>c. 7)" False
        "\<lparr>compactPosition = ''0.}'', nimber = 1\<rparr>"
        "\<lparr>proofNumbers = \<lparr>pn_proof = 2, pn_disproof = 3\<rparr>, iterations = 5\<rparr>"]
    by simp
qed

end
